theory Spec2Isabelle
  imports Complex_Main "HOL-Library.Word"
begin

unbundle bit_operations_syntax

section \<open>Python strings\<close>

text \<open>
  A Python \<^verbatim>\<open>str\<close> is a sequence of Unicode code points, so it is modelled as a list of
  natural numbers (the horizontal ellipsis U+2026 and the em dash U+2014 of the source are single
  characters). ASCII literals are written through \<open>u\<close>.
\<close>

type_synonym ustr = "nat list"

definition u :: "string \<Rightarrow> ustr" where
  "u s = map of_char s"

text \<open>
  \<^verbatim>\<open>str.isspace\<close>, which is also what \<^verbatim>\<open>\s\<close> of \<^verbatim>\<open>re\<close> and \<^verbatim>\<open>str.strip()\<close> use on
  \<^verbatim>\<open>str\<close>: the ASCII whitespace, the separators U+001C..U+001F, NEL, NBSP and the Unicode
  space separators.
\<close>

definition is_space :: "nat \<Rightarrow> bool" where
  "is_space c \<longleftrightarrow>
     (9 \<le> c \<and> c \<le> 13) \<or> (28 \<le> c \<and> c \<le> 32) \<or> c = 133 \<or> c = 160 \<or> c = 5760 \<or>
     (8192 \<le> c \<and> c \<le> 8202) \<or> c = 8232 \<or> c = 8233 \<or> c = 8239 \<or> c = 8287 \<or> c = 12288"

definition lstrip :: "ustr \<Rightarrow> ustr" where
  "lstrip s = dropWhile is_space s"

definition rstrip :: "ustr \<Rightarrow> ustr" where
  "rstrip s = rev (dropWhile is_space (rev s))"

definition strip :: "ustr \<Rightarrow> ustr" where
  "strip s = rstrip (lstrip s)"

text \<open>\<^verbatim>\<open>s.split(sep)\<close> for a one-character separator: never the empty list.\<close>

fun split_on :: "nat \<Rightarrow> ustr \<Rightarrow> ustr list" where
  "split_on d [] = [[]]"
| "split_on d (c # cs) =
     (if c = d then [] # split_on d cs
      else (case split_on d cs of [] \<Rightarrow> [[c]] | l # ls \<Rightarrow> (c # l) # ls))"

text \<open>\<^verbatim>\<open>sep.join(parts)\<close>.\<close>

fun join :: "ustr \<Rightarrow> ustr list \<Rightarrow> ustr" where
  "join sep [] = []"
| "join sep [x] = x"
| "join sep (x # y # ys) = x @ sep @ join sep (y # ys)"

text \<open>
  \<^verbatim>\<open>s.replace(old, new)\<close> for a non-empty \<open>old\<close>: the non-overlapping occurrences, leftmost
  first. (Every call of the source has a non-empty literal \<open>old\<close>; for an empty one the model
  returns the string unchanged.)
\<close>

fun replace :: "ustr \<Rightarrow> ustr \<Rightarrow> ustr \<Rightarrow> ustr" where
  "replace old new [] = []"
| "replace old new (c # cs) =
     (if old \<noteq> [] \<and> take (length old) (c # cs) = old
      then new @ replace old new (drop (length old - 1) cs)
      else c # replace old new cs)"

section \<open>Regular-expression substitution\<close>

text \<open>
  \<^verbatim>\<open>re.sub(pattern, repl, s)\<close> scans the subject from the left and replaces the
  non-overlapping matches. A pattern is given as a matcher: from the character before the
  current position (for \<^verbatim>\<open>^\<close> and the look-behinds; \<open>None\<close> at the start of the
  subject) and the subject from the current position on, it returns the replacement text and the
  number of characters the match consumes, or \<open>None\<close> when the pattern does not match at
  this position. An empty match emits the replacement and copies one character, as Python does.
\<close>

type_synonym matcher = "nat option \<Rightarrow> ustr \<Rightarrow> (ustr \<times> nat) option"

fun re_sub :: "matcher \<Rightarrow> nat option \<Rightarrow> ustr \<Rightarrow> ustr" where
  "re_sub m p [] = (case m p [] of Some (rep, n) \<Rightarrow> rep | None \<Rightarrow> [])"
| "re_sub m p (c # cs) =
     (case m p (c # cs) of
        Some (rep, n) \<Rightarrow>
          (if n = 0 then rep @ c # re_sub m (Some c) cs
           else rep @ re_sub m (Some ((c # cs) ! (n - 1))) (drop (n - 1) cs))
      | None \<Rightarrow> c # re_sub m (Some c) cs)"

section \<open>The text sanitizer (app/utils/text\_utils.py)\<close>

text \<open>
  The character class \<^verbatim>\<open>[a-zA-Z0-9_\-]\<close> of the type tag.
\<close>

definition is_tag_char :: "nat \<Rightarrow> bool" where
  "is_tag_char c \<longleftrightarrow>
     (97 \<le> c \<and> c \<le> 122) \<or> (65 \<le> c \<and> c \<le> 90) \<or> (48 \<le> c \<and> c \<le> 57) \<or> c = 95 \<or> c = 45"

text \<open>
  A match of \<^verbatim>\<open>\[\[type:([a-zA-Z0-9_\-]+)\]\]\<close> at the head of the string: the identifier
  (group 1) and the length of the match. The greedy run cannot give a character back to
  \<^verbatim>\<open>\]\<close>, so there is at most one way to match.
\<close>

definition match_type_tag :: "ustr \<Rightarrow> (ustr \<times> nat) option" where
  "match_type_tag s =
     (if take 7 s = u ''[[type:'' then
        (let ident = takeWhile is_tag_char (drop 7 s);
             rest = dropWhile is_tag_char (drop 7 s)
         in if ident \<noteq> [] \<and> take 2 rest = u '']]'' then Some (ident, 7 + length ident + 2)
            else None)
      else None)"

text \<open>\<^verbatim>\<open>_TYPE_TAG_RE.sub("", s)\<close>.\<close>

definition m_type_tag :: matcher where
  "m_type_tag p s = (case match_type_tag s of Some (ident, n) \<Rightarrow> Some ([], n) | None \<Rightarrow> None)"

text \<open>
  \<^verbatim>\<open>re.sub(r"\[([^\]]+)\]\(([^)]+)\)", r"\1", s)\<close>: a negated class also matches a newline;
  each greedy run ends at the first closing character, which the next token of the pattern
  needs, so there is no second way to match.
\<close>

definition m_md_link :: matcher where
  "m_md_link p s =
     (case s of
        [] \<Rightarrow> None
      | c # r1 \<Rightarrow>
          (if c = 91 then
             (let label = takeWhile (\<lambda>x. x \<noteq> 93) r1;
                  r2 = dropWhile (\<lambda>x. x \<noteq> 93) r1
              in if label \<noteq> [] \<and> take 2 r2 = [93, 40] then
                   (let url = takeWhile (\<lambda>x. x \<noteq> 41) (drop 2 r2);
                        r3 = dropWhile (\<lambda>x. x \<noteq> 41) (drop 2 r2)
                    in if url \<noteq> [] \<and> take 1 r3 = [41]
                       then Some (label, 1 + length label + 2 + length url + 1)
                       else None)
                 else None)
           else None))"

text \<open>
  \<^verbatim>\<open>\w\<close> on \<^verbatim>\<open>str\<close>: the ASCII letters and digits, the underscore, and the
  alphanumeric characters beyond ASCII, whose table (the Unicode database of the interpreter) is
  the parameter \<open>W\<close>.
\<close>

definition is_word :: "(nat \<Rightarrow> bool) \<Rightarrow> nat \<Rightarrow> bool" where
  "is_word W c \<longleftrightarrow>
     (97 \<le> c \<and> c \<le> 122) \<or> (65 \<le> c \<and> c \<le> 90) \<or> (48 \<le> c \<and> c \<le> 57) \<or> c = 95 \<or>
     (128 \<le> c \<and> W c)"

text \<open>
  \<^verbatim>\<open>re.sub(r"(?<!\w)[*_](?!\w)|(?<=\w)[*_](?!\w)|(?<!\w)[*_](?=\w)", "", s)\<close>: the
  look-behind reads the subject, not the output.
\<close>

definition m_emphasis :: "(nat \<Rightarrow> bool) \<Rightarrow> matcher" where
  "m_emphasis W p s =
     (case s of
        [] \<Rightarrow> None
      | c # cs \<Rightarrow>
          (let wb = (case p of None \<Rightarrow> False | Some q \<Rightarrow> is_word W q);
               wa = (case cs of [] \<Rightarrow> False | d # ds \<Rightarrow> is_word W d)
           in if (c = 42 \<or> c = 95) \<and> ((\<not> wb \<and> \<not> wa) \<or> (wb \<and> \<not> wa) \<or> (\<not> wb \<and> wa))
              then Some ([], 1) else None))"

text \<open>
  \<^verbatim>\<open>re.sub(r"^\s*#+\s*", "", s, flags=re.MULTILINE)\<close>: \<^verbatim>\<open>^\<close> holds at the start of
  the subject and after a line feed; both whitespace runs may contain line feeds.
\<close>

definition m_heading :: matcher where
  "m_heading p s =
     (if p = None \<or> p = Some 10 then
        (let r1 = dropWhile is_space s;
             hs = takeWhile (\<lambda>x. x = 35) r1;
             r2 = dropWhile (\<lambda>x. x = 35) r1;
             ws = takeWhile is_space r2
         in if hs \<noteq> [] then Some ([], (length s - length r1) + length hs + length ws)
            else None)
      else None)"

text \<open>The class \<^verbatim>\<open>[.!?\<dots>]\<close> (the last one is U+2026) and the class \<^verbatim>\<open>[,.!?\<dots>]\<close>.\<close>

definition is_terminal :: "nat \<Rightarrow> bool" where
  "is_terminal c \<longleftrightarrow> c = 46 \<or> c = 33 \<or> c = 63 \<or> c = 8230"

definition is_punct :: "nat \<Rightarrow> bool" where
  "is_punct c \<longleftrightarrow> c = 44 \<or> is_terminal c"

text \<open>
  Step 6: \<^verbatim>\<open>lines = [ln.strip() for ln in s.split("\n") if ln.strip()]\<close>, then a period is
  appended to each line that \<^verbatim>\<open>re.search(r"[.!?\<dots>]$", ln)\<close> rejects. A line is stripped and
  not empty, so \<^verbatim>\<open>$\<close> can only hold at its very end.
\<close>

definition lines_of :: "ustr \<Rightarrow> ustr list" where
  "lines_of s = filter (\<lambda>line. line \<noteq> []) (map strip (split_on 10 s))"

definition end_line :: "ustr \<Rightarrow> ustr" where
  "end_line line = (if line \<noteq> [] \<and> is_terminal (last line) then line else line @ [46])"

text \<open>Step 7: \<^verbatim>\<open>\s+([,.!?\<dots>])\<close> to \<^verbatim>\<open>\1\<close>, \<^verbatim>\<open>\(\s+\<close> to \<^verbatim>\<open>(\<close>, \<^verbatim>\<open>\s+\)\<close> to \<^verbatim>\<open>)\<close>.\<close>

definition m_space_punct :: matcher where
  "m_space_punct p s =
     (let ws = takeWhile is_space s
      in case dropWhile is_space s of
           [] \<Rightarrow> None
         | q # r \<Rightarrow> if ws \<noteq> [] \<and> is_punct q then Some ([q], length ws + 1) else None)"

definition m_paren_space :: matcher where
  "m_paren_space p s =
     (case s of
        [] \<Rightarrow> None
      | c # cs \<Rightarrow>
          (let ws = takeWhile is_space cs
           in if c = 40 \<and> ws \<noteq> [] then Some ([40], 1 + length ws) else None))"

definition m_space_paren :: matcher where
  "m_space_paren p s =
     (let ws = takeWhile is_space s
      in case dropWhile is_space s of
           [] \<Rightarrow> None
         | q # r \<Rightarrow> if ws \<noteq> [] \<and> q = 41 then Some ([41], length ws + 1) else None)"

text \<open>Step 8: \<^verbatim>\<open>re.sub(r"\s{2,}", " ", s)\<close>.\<close>

definition m_spaces :: matcher where
  "m_spaces p s =
     (let ws = takeWhile is_space s
      in if 2 \<le> length ws then Some ([32], length ws) else None)"

text \<open>
  \<^verbatim>\<open>clean_for_tts(text)\<close> on a string. The steps are those of the source, in its order.
\<close>

definition clean_for_tts :: "(nat \<Rightarrow> bool) \<Rightarrow> ustr \<Rightarrow> ustr" where
  "clean_for_tts W text =
     (if text = [] then text
      else
        (let s = re_sub m_type_tag None text;
             s = replace [92, 110] [10] s;
             s = replace [13, 10] [10] s;
             s = re_sub m_md_link None s;
             s = replace [95, 95] [] (replace [42, 42] [] s);
             s = replace [96] [] s;
             s = re_sub (m_emphasis W) None s;
             s = re_sub m_heading None s;
             processed = map end_line (lines_of s);
             s = join [32] processed;
             s = re_sub m_space_punct None s;
             s = re_sub m_paren_space None s;
             s = re_sub m_space_paren None s
         in strip (re_sub m_spaces None s)))"


text \<open>
  The table of \<^verbatim>\<open>\w\<close> is consulted for characters beyond ASCII only. The closed examples
  below are ASCII, so they hold for every table; they are stated with the table that knows no
  alphanumeric character beyond ASCII.
\<close>

definition ascii_words :: "nat \<Rightarrow> bool" where
  "ascii_words c \<longleftrightarrow> False"

section \<open>Python values\<close>

text \<open>
  The values that \<^verbatim>\<open>json.loads\<close> produces. A finite number is one constructor: the code
  never tells \<^verbatim>\<open>int\<close> from \<^verbatim>\<open>float\<close>, it only tests numbers for truth. The floats that
  are not finite are values too: \<^verbatim>\<open>json.loads\<close> accepts the literals \<^verbatim>\<open>NaN\<close>,
  \<^verbatim>\<open>Infinity\<close> and \<^verbatim>\<open>-Infinity\<close>, which are not JSON. A \<^verbatim>\<open>dict\<close> is an association
  list in insertion order; its keys are values, since \<^verbatim>\<open>forward_to_n8n\<close> builds a dict whose
  keys come from the response.
\<close>

datatype nonfinite = NaN | Infinity | Minus_Infinity

datatype json =
    JNull
  | JBool bool
  | JNum real
  | JNonFinite nonfinite
  | JStr ustr
  | JArr "json list"
  | JObj "(json \<times> json) list"

type_synonym dict = "(json \<times> json) list"

text \<open>Truth value testing (\<^verbatim>\<open>if x\<close>, \<^verbatim>\<open>not x\<close>, \<^verbatim>\<open>bool(x)\<close>) and \<^verbatim>\<open>a or b\<close>.\<close>

fun truthy :: "json \<Rightarrow> bool" where
  "truthy JNull = False"
| "truthy (JBool b) = b"
| "truthy (JNum r) = (r \<noteq> 0)"
| "truthy (JNonFinite x) = True"
| "truthy (JStr s) = (s \<noteq> [])"
| "truthy (JArr xs) = (xs \<noteq> [])"
| "truthy (JObj kvs) = (kvs \<noteq> [])"

definition py_or :: "json \<Rightarrow> json \<Rightarrow> json" where
  "py_or a b = (if truthy a then a else b)"

fun is_dict :: "json \<Rightarrow> bool" where
  "is_dict (JObj kvs) = True"
| "is_dict v = False"

text \<open>\<^verbatim>\<open>d.get(k)\<close>, \<^verbatim>\<open>d.get(k, default)\<close> and \<^verbatim>\<open>k in d\<close> for a string key.\<close>

definition get_default :: "dict \<Rightarrow> string \<Rightarrow> json \<Rightarrow> json" where
  "get_default d k dflt = (case map_of d (JStr (u k)) of None \<Rightarrow> dflt | Some v \<Rightarrow> v)"

definition get :: "dict \<Rightarrow> string \<Rightarrow> json" where
  "get d k = get_default d k JNull"

definition has_key :: "dict \<Rightarrow> string \<Rightarrow> bool" where
  "has_key d k = (case map_of d (JStr (u k)) of None \<Rightarrow> False | Some v \<Rightarrow> True)"

text \<open>
  \<^verbatim>\<open>d[k] = v\<close>: an existing key keeps its place. Lists and dicts are not hashable. As keys,
  \<^verbatim>\<open>True\<close> and \<^verbatim>\<open>1\<close> are the same key, so a Boolean key is stored as its number. A
  \<^verbatim>\<open>NaN\<close> equals nothing, not even another \<^verbatim>\<open>NaN\<close>, so as a key it never replaces an
  entry.
\<close>

fun hashable :: "json \<Rightarrow> bool" where
  "hashable (JArr xs) = False"
| "hashable (JObj kvs) = False"
| "hashable v = True"

fun as_key :: "json \<Rightarrow> json" where
  "as_key (JBool b) = JNum (if b then 1 else 0)"
| "as_key v = v"

fun setitem :: "dict \<Rightarrow> json \<Rightarrow> json \<Rightarrow> dict" where
  "setitem [] k v = [(k, v)]"
| "setitem ((k', v') # kvs) k v =
     (if k' = k \<and> k \<noteq> JNonFinite NaN then (k', v) # kvs else (k', v') # setitem kvs k v)"

text \<open>
  The exceptions of the pipeline. \<^verbatim>\<open>HTTPException\<close> carries its status code and detail.
  \<open>FfmpegFailed\<close> is the \<^verbatim>\<open>RuntimeError\<close> whose message is formatted from the exit code and
  the error output of the tool. \<open>TransportError\<close> stands for what the HTTP client raises when a
  request fails. \<open>WebSocketDisconnect\<close> is the exception that the outer handler of the realtime
  session catches apart.
\<close>

datatype exn =
    HTTPException nat ustr
  | RuntimeError ustr
  | FfmpegFailed int "8 word list"
  | AttributeError
  | TypeError
  | TransportError ustr
  | WebSocketDisconnect

text \<open>
  What the interpreter and its libraries provide: \<^verbatim>\<open>json.loads\<close> (\<open>None\<close> when it raises),
  \<^verbatim>\<open>str.lower\<close> on a string with a character beyond ASCII (the Unicode case mapping depends on
  context), the word characters beyond ASCII, and \<^verbatim>\<open>str(x)\<close> of a value that is not a
  string.
\<close>

record pylib =
  json_loads :: "ustr \<Rightarrow> json option"
  lower_unicode :: "ustr \<Rightarrow> ustr"
  word_unicode :: "nat \<Rightarrow> bool"
  repr :: "json \<Rightarrow> ustr"

definition lower :: "pylib \<Rightarrow> ustr \<Rightarrow> ustr" where
  "lower lib s =
     (if list_all (\<lambda>c. c < 128) s then map (\<lambda>c. if 65 \<le> c \<and> c \<le> 90 then c + 32 else c) s
      else lower_unicode lib s)"

fun str :: "pylib \<Rightarrow> json \<Rightarrow> ustr" where
  "str lib (JStr s) = s"
| "str lib v = repr lib v"

text \<open>\<^verbatim>\<open>str(n)\<close> of an integer, for the messages that format one.\<close>

fun digits :: "nat \<Rightarrow> ustr" where
  "digits n = (if n < 10 then [48 + n] else digits (n div 10) @ [48 + n mod 10])"

definition str_int :: "int \<Rightarrow> ustr" where
  "str_int i = (if i < 0 then 45 # digits (nat (- i)) else digits (nat i))"

section \<open>The transcoder adapter (app/utils/audio\_utils.py)\<close>

type_synonym bytes = "8 word list"

text \<open>\<^verbatim>\<open>mime.split(";")[0]\<close>.\<close>

definition mime_base :: "ustr \<Rightarrow> ustr" where
  "mime_base m = takeWhile (\<lambda>c. c \<noteq> 59) m"

definition MIME_EXT :: "(ustr \<times> ustr) list" where
  "MIME_EXT =
     [(u ''audio/webm'', u ''.webm''), (u ''audio/ogg'', u ''.ogg''),
      (u ''audio/mpeg'', u ''.mp3''), (u ''audio/mp3'', u ''.mp3''),
      (u ''audio/wav'', u ''.wav''), (u ''audio/x-wav'', u ''.wav''),
      (u ''audio/wave'', u ''.wav'')]"

text \<open>\<^verbatim>\<open>_ext_for_mime\<close>; \<open>None\<close> is a false (absent or empty) media type.\<close>

definition ext_for_mime :: "pylib \<Rightarrow> ustr option \<Rightarrow> ustr" where
  "ext_for_mime lib mime =
     (case mime of
        None \<Rightarrow> u ''.bin''
      | Some m \<Rightarrow>
          (case map_of MIME_EXT (lower lib (strip (mime_base m))) of
             None \<Rightarrow> u ''.bin''
           | Some e \<Rightarrow> e))"

text \<open>\<^verbatim>\<open>_sniff_mime\<close>: the container from the magic bytes.\<close>

definition sniff_mime :: "bytes \<Rightarrow> ustr option" where
  "sniff_mime data =
     (if data = [] \<or> length data < 4 then None
      else
        (let head4 = take 4 data; head3 = take 3 data
         in if head4 = [0x52, 0x49, 0x46, 0x46] then Some (u ''audio/wav'')
            else if head4 = [0x4F, 0x67, 0x67, 0x53] then Some (u ''audio/ogg'')
            else if head3 = [0x49, 0x44, 0x33] \<or> (data ! 0 = 0xFF \<and> (data ! 1) AND 0xE0 = 0xE0)
              then Some (u ''audio/mpeg'')
            else if head4 = [0x1A, 0x45, 0xDF, 0xA3] then Some (u ''audio/webm'')
            else None))"

text \<open>
  One run of the external tool: its exit code, its error output, and the output file after the
  run. The tool is a function of the forced input format (\<open>None\<close> lets it detect the format);
  within one conversion no format is tried twice.
\<close>

record proc =
  returncode :: int
  stderr :: bytes
  out_exists :: bool
  out_data :: bytes

type_synonym ffmpeg = "ustr option \<Rightarrow> proc"

text \<open>A call of the tool, as the code issues it: the suffix of the input file and the forced format.\<close>

datatype ffmpeg_call = Ffmpeg ustr "ustr option"

definition fmt_map :: "(ustr \<times> ustr) list" where
  "fmt_map =
     [(u ''audio/webm'', u ''webm''), (u ''audio/ogg'', u ''ogg''),
      (u ''audio/mpeg'', u ''mp3''), (u ''audio/mp3'', u ''mp3'')]"

text \<open>
  The loop \<^verbatim>\<open>for f in tries: proc = run_ffmpeg(force_fmt=f); if ok: break\<close>, with the last
  \<open>proc\<close> and the calls made.
\<close>

fun try_formats :: "ffmpeg \<Rightarrow> ustr \<Rightarrow> ustr list \<Rightarrow> proc option \<Rightarrow> proc option \<times> ffmpeg_call list" where
  "try_formats run ext [] last_proc = (last_proc, [])"
| "try_formats run ext (f # fs) last_proc =
     (let p = run (Some f)
      in if returncode p = 0 \<and> out_exists p then (Some p, [Ffmpeg ext (Some f)])
         else (case try_formats run ext fs (Some p) of
                 (q, calls) \<Rightarrow> (q, Ffmpeg ext (Some f) # calls)))"

text \<open>
  \<^verbatim>\<open>convert_to_wav(audio_bytes, input_mime)\<close>: the result or the exception, and the calls of
  the external tool. \<open>input_mime\<close> is whatever the session recorded; a true value that is not a
  string has no \<^verbatim>\<open>split\<close>.
\<close>

definition wav_types :: "ustr list" where
  "wav_types = [u ''audio/wav'', u ''audio/x-wav'', u ''audio/wave'']"

definition convert_to_wav :: "pylib \<Rightarrow> ffmpeg \<Rightarrow> bytes \<Rightarrow> json \<Rightarrow> (exn + bytes) \<times> ffmpeg_call list" where
  "convert_to_wav lib run audio_bytes input_mime =
     (if audio_bytes = [] then (Inl (RuntimeError (u ''Empty audio bytes'')), [])
      else
        (case (if truthy input_mime
               then (case input_mime of JStr m \<Rightarrow> Inr (Some m) | _ \<Rightarrow> Inl AttributeError)
               else Inr None) of
           Inl e \<Rightarrow> (Inl e, [])
         | Inr declared \<Rightarrow>
             (if (case declared of
                    None \<Rightarrow> False
                  | Some m \<Rightarrow> lower lib (strip (mime_base m)) \<in> set wav_types)
              then (Inr audio_bytes, [])
              else
                (let sniffed = sniff_mime audio_bytes;
                     mime =
                       (case sniffed of
                          None \<Rightarrow> declared
                        | Some sn \<Rightarrow>
                            (case declared of
                               None \<Rightarrow> Some sn
                             | Some m \<Rightarrow>
                                 if lower lib (mime_base sn) \<noteq> lower lib (mime_base m)
                                 then Some sn else Some m));
                     in_ext = ext_for_mime lib mime;
                     tries =
                       (case mime of
                          None \<Rightarrow> []
                        | Some m \<Rightarrow> (case map_of fmt_map m of None \<Rightarrow> [] | Some f \<Rightarrow> [f]));
                     tries =
                       foldl (\<lambda>t f. if f \<in> set t then t else t @ [f]) tries
                         [u ''webm'', u ''ogg'', u ''mp3'']
                 in case try_formats run in_ext tries None of
                      (last_proc, calls) \<Rightarrow>
                        (let retry =
                               (case last_proc of
                                  None \<Rightarrow> True
                                | Some p \<Rightarrow> returncode p \<noteq> 0 \<or> \<not> out_exists p);
                             p = (case last_proc of
                                    None \<Rightarrow> run None
                                  | Some q \<Rightarrow> if retry then run None else q);
                             calls = (if retry then calls @ [Ffmpeg in_ext None] else calls)
                         in if returncode p \<noteq> 0 \<or> \<not> out_exists p
                            then (Inl (FfmpegFailed (returncode p) (stderr p)), calls)
                            else if out_data p = []
                            then (Inl (RuntimeError (u ''ffmpeg produced empty output'')), calls)
                            else (Inr (out_data p), calls))))))"


section \<open>Configuration (app/core/config.py)\<close>

record settings =
  XI_API_KEY :: ustr
  VOICE_ID_EMPATHIC :: ustr
  VOICE_ID_NEUTRAL :: ustr
  VOICE_ID_ALERT :: ustr
  VOICE_ID_CRISIS :: ustr
  N8N_WEBHOOK_URL :: ustr
  DEFAULT_VOICE_ID :: ustr
  DEFAULT_TTS_FORMAT :: ustr
  MAX_UPLOAD_MB :: int

text \<open>
  An HTTP response: \<^verbatim>\<open>resp.status_code\<close> and \<^verbatim>\<open>resp.text\<close>; \<^verbatim>\<open>resp.json()\<close> is
  \<^verbatim>\<open>json.loads\<close> of that text. A request either raises in the client or has a response.
\<close>

record response =
  status_code :: nat
  body :: ustr

type_synonym http_post = "exn + response"

section \<open>The transcription adapter (app/service/sttServices.py)\<close>

text \<open>
  \<^verbatim>\<open>stt_raw_bytes_to_text\<close>. The transcript is whatever the provider put under
  \<^verbatim>\<open>"text"\<close>, as long as it is true.
\<close>

definition stt_raw_bytes_to_text :: "pylib \<Rightarrow> settings \<Rightarrow> http_post \<Rightarrow> bytes \<Rightarrow> exn + json" where
  "stt_raw_bytes_to_text lib cfg post audio_bytes =
     (if XI_API_KEY cfg = [] then Inl (HTTPException 500 (u ''XI_API_KEY not set''))
      else if audio_bytes = [] then Inl (HTTPException 400 (u ''Empty audio''))
      else if int (length audio_bytes) > MAX_UPLOAD_MB cfg * 1024 * 1024
        then Inl (HTTPException 400
               (u ''Audio exceeds max size of '' @ str_int (MAX_UPLOAD_MB cfg) @ u '' MB''))
      else
        (case post of
           Inl e \<Rightarrow> Inl e
         | Inr resp \<Rightarrow>
             (if status_code resp \<ge> 400 then Inl (HTTPException (status_code resp) (body resp))
              else
                (case json_loads lib (body resp) of
                   None \<Rightarrow> Inl (HTTPException 502 (u ''Invalid STT provider response''))
                 | Some result \<Rightarrow>
                     (case result of
                        JObj d \<Rightarrow>
                          (let transcript = get_default d ''text'' (JStr [])
                           in if \<not> truthy transcript
                              then Inl (HTTPException 400 (u ''No transcript text produced''))
                              else Inr transcript)
                      | _ \<Rightarrow> Inl AttributeError)))))"

section \<open>The orchestration adapter (app/service/orchSerenityAi.py)\<close>

text \<open>
  The inner loop over the entries of one value type of a \<^verbatim>\<open>values\<close> group. An entry that
  is not a dict has no \<^verbatim>\<open>get\<close>; a name that is a list or a dict cannot be a key.
  \<^verbatim>\<open>json.loads(val)\<close> raises on anything but text, and the handler keeps \<open>val\<close>.
\<close>

fun flatten_entries :: "pylib \<Rightarrow> json \<Rightarrow> json list \<Rightarrow> dict \<Rightarrow> exn + dict" where
  "flatten_entries lib vtype [] normalized = Inr normalized"
| "flatten_entries lib vtype (e # es) normalized =
     (case e of
        JObj ed \<Rightarrow>
          (let name = get ed ''name''; val = get ed ''value''
           in if name = JNull then flatten_entries lib vtype es normalized
              else if \<not> hashable name then Inl TypeError
              else if vtype = JStr (u ''json'') then
                flatten_entries lib vtype es
                  (setitem normalized (as_key name)
                     (case val of
                        JStr t \<Rightarrow> (case json_loads lib t of None \<Rightarrow> val | Some v \<Rightarrow> v)
                      | _ \<Rightarrow> val))
              else if vtype = JStr (u ''boolean'') then
                flatten_entries lib vtype es (setitem normalized (as_key name) (JBool (truthy val)))
              else flatten_entries lib vtype es (setitem normalized (as_key name) val))
      | _ \<Rightarrow> Inl AttributeError)"

text \<open>The outer loop \<^verbatim>\<open>for vtype, entries in vals.items()\<close>.\<close>

fun flatten_values :: "pylib \<Rightarrow> dict \<Rightarrow> dict \<Rightarrow> exn + dict" where
  "flatten_values lib [] normalized = Inr normalized"
| "flatten_values lib ((vtype, entries) # rest) normalized =
     (case entries of
        JArr es \<Rightarrow>
          (case flatten_entries lib vtype es normalized of
             Inl e \<Rightarrow> Inl e
           | Inr normalized' \<Rightarrow> flatten_values lib rest normalized')
      | _ \<Rightarrow> flatten_values lib rest normalized)"

text \<open>The shapes of a parsed response body, in the order of the source.\<close>

definition n8n_shape :: "pylib \<Rightarrow> ustr \<Rightarrow> json \<Rightarrow> exn + json" where
  "n8n_shape lib raw data =
     (case (case data of JArr (JObj first # rest) \<Rightarrow> Some first | _ \<Rightarrow> None) of
        Some first \<Rightarrow>
          (if has_key first ''json'' \<and> is_dict (get first ''json'') then Inr (get first ''json'')
           else Inr (JObj first))
      | None \<Rightarrow>
          (case data of
             JObj d \<Rightarrow>
               (case get d ''values'' of
                  JObj vals \<Rightarrow>
                    (case flatten_values lib vals [] of
                       Inl e \<Rightarrow> Inl e
                     | Inr normalized \<Rightarrow> if normalized \<noteq> [] then Inr (JObj normalized) else Inr data)
                | _ \<Rightarrow> Inr data)
           | _ \<Rightarrow> Inr (JObj [(JStr (u ''raw''), JStr raw), (JStr (u ''parsed''), data)])))"

text \<open>\<^verbatim>\<open>forward_to_n8n\<close>, given what the POST to the webhook does.\<close>

definition forward_to_n8n :: "pylib \<Rightarrow> settings \<Rightarrow> http_post \<Rightarrow> exn + json" where
  "forward_to_n8n lib cfg post =
     (if N8N_WEBHOOK_URL cfg = [] then Inl (HTTPException 500 (u ''N8N_WEBHOOK_URL not set''))
      else
        (case post of
           Inl e \<Rightarrow> Inl e
         | Inr resp \<Rightarrow>
             (if status_code resp \<ge> 400
              then Inl (HTTPException (status_code resp) (u ''n8n error: '' @ body resp))
              else
                (case json_loads lib (body resp) of
                   None \<Rightarrow> Inr (JObj [(JStr (u ''raw''), JStr (body resp))])
                 | Some data \<Rightarrow> n8n_shape lib (body resp) data))))"

section \<open>Normalization of the HTTP pipeline (app/routes/ttsRoutes.py)\<close>



definition empty_result :: dict where
  "empty_result =
     [(JStr (u ''text''), JNull), (JStr (u ''type''), JNull),
      (JStr (u ''crisis_flag''), JNull), (JStr (u ''meta''), JObj [])]"






section \<open>The speech synthesis adapter (app/service/ttsServices.py)\<close>

text \<open>
  \<^verbatim>\<open>_voice_for_type\<close>: the voice mapped to the response type, else the default voice. A true
  response type that is not a string has no \<^verbatim>\<open>lower\<close>.
\<close>

definition TYPE_TO_VOICE :: "settings \<Rightarrow> (ustr \<times> ustr) list" where
  "TYPE_TO_VOICE cfg =
     [(u ''empathic'', VOICE_ID_EMPATHIC cfg), (u ''neutral'', VOICE_ID_NEUTRAL cfg),
      (u ''alert'', VOICE_ID_ALERT cfg), (u ''crisis'', VOICE_ID_CRISIS cfg)]"

definition voice_for_type :: "pylib \<Rightarrow> settings \<Rightarrow> json \<Rightarrow> exn + ustr" where
  "voice_for_type lib cfg response_type =
     (if truthy response_type then
        (case response_type of
           JStr t \<Rightarrow>
             (case map_of (TYPE_TO_VOICE cfg) (lower lib t) of
                None \<Rightarrow> Inr (DEFAULT_VOICE_ID cfg)
              | Some voice_id \<Rightarrow> if voice_id \<noteq> [] then Inr voice_id else Inr (DEFAULT_VOICE_ID cfg))
         | _ \<Rightarrow> Inl AttributeError)
      else Inr (DEFAULT_VOICE_ID cfg))"

definition media_type_for_format :: "pylib \<Rightarrow> ustr \<Rightarrow> ustr" where
  "media_type_for_format lib fmt0 =
     (let fmt = lower lib fmt0
      in if take 4 fmt = u ''mp3_'' \<or> fmt = u ''mp3'' then u ''audio/mpeg''
         else if take 4 fmt = u ''ogg_'' \<or> fmt = u ''ogg'' then u ''audio/ogg''
         else if take 4 fmt = u ''wav_'' \<or> fmt = u ''wav'' then u ''audio/wav''
         else u ''audio/mpeg'')"

text \<open>
  \<^verbatim>\<open>stream_text_to_speech\<close> up to its return: the checks, the chosen voice and the media
  type. It returns a generator; the request is made when the generator is first advanced. (The
  request URL is the configured template with the voice filled in; it is not modelled.)
\<close>

definition stream_text_to_speech :: "pylib \<Rightarrow> settings \<Rightarrow> ustr \<Rightarrow> json \<Rightarrow> exn + (ustr \<times> ustr)" where
  "stream_text_to_speech lib cfg txt response_type =
     (if XI_API_KEY cfg = [] then Inl (HTTPException 500 (u ''XI_API_KEY not set''))
      else if txt = [] \<or> strip txt = [] then Inl (HTTPException 400 (u ''Text is empty''))
      else
        (case voice_for_type lib cfg response_type of
           Inl e \<Rightarrow> Inl e
         | Inr v \<Rightarrow>
             (let chosen_voice = strip (if v \<noteq> [] then v else DEFAULT_VOICE_ID cfg)
              in if chosen_voice = []
                 then Inl (HTTPException 500 (u ''No voice_id available (DEFAULT_VOICE_ID not set)''))
                 else
                   (let fmt = strip (if DEFAULT_TTS_FORMAT cfg \<noteq> [] then DEFAULT_TTS_FORMAT cfg
                                     else u ''mp3_44100_128'')
                    in Inr (chosen_voice, media_type_for_format lib fmt)))))"

text \<open>
  The streamed response of the provider: its status, the body read on a failure status, the
  chunks it yields, and the exception that ends the iteration early, if any. The generator
  \<^verbatim>\<open>_aiter\<close> raises on a failure status before it yields anything.
\<close>

record tts_response =
  tts_status :: nat
  tts_detail :: ustr
  tts_chunks :: "bytes list"
  tts_failure :: "exn option"

definition aiter :: "exn + tts_response \<Rightarrow> bytes list \<times> exn option" where
  "aiter stream =
     (case stream of
        Inl e \<Rightarrow> ([], Some e)
      | Inr r \<Rightarrow>
          (if tts_status r \<ge> 400 then ([], Some (HTTPException (tts_status r) (tts_detail r)))
           else (tts_chunks r, tts_failure r)))"

section \<open>The realtime session (app/routes/realtimeRoutes.py)\<close>

text \<open>
  The events sent to the client. The detail of an error event is a fixed word or
  \<^verbatim>\<open>str(e)\<close> of an exception; its optional message is \<^verbatim>\<open>str(conv_err)[:200]\<close>, kept
  as the exception. The payload of a debug event is always serializable, since it was parsed
  from JSON, so the fallback of the source for that event does not arise.
\<close>

datatype detail = Detail ustr | Str_of exn

datatype event =
    Ready
  | Error_event detail "exn option"
  | Debug json json
  | Crisis json json json
  | Audio_start ustr json
  | Binary bytes
  | Audio_end

text \<open>
  What the handler does, in order: the events it sends and the adapters it calls. A call of the
  transcoder carries the calls of the external tool it made.
\<close>

datatype action =
    Send event
  | Call_convert_to_wav bytes json "ffmpeg_call list"
  | Call_stt bytes json
  | Call_n8n json json
  | Call_tts ustr json

text \<open>
  The answers of the outside world while one frame is handled. The sends of the handler proper
  go through: the peer is there while its frame is served. The last send, the one of the outer
  handler, is made in a \<^verbatim>\<open>try\<close> of its own whose failure is ignored; whether it goes through
  is \<open>final_send_ok\<close>.
\<close>

record io =
  run_ffmpeg :: ffmpeg
  stt_post :: http_post
  n8n_post :: http_post
  tts_stream :: "exn + tts_response"
  final_send_ok :: bool

record session =
  buffer :: bytes
  session_id :: json
  language :: json
  input_mime :: json

datatype status = Running | Closed

type_synonym outcome = "action list \<times> session \<times> status"

datatype frame = Disconnect | Text_frame ustr | Bytes_frame bytes | Other_frame

definition emit :: "action list \<Rightarrow> outcome \<Rightarrow> outcome" where
  "emit acts r = (case r of (later, st, s) \<Rightarrow> (acts @ later, st, s))"

text \<open>
  The outer handler. \<^verbatim>\<open>except WebSocketDisconnect: return\<close> sends nothing.
  \<^verbatim>\<open>except Exception as e\<close> tries to send one error event with \<^verbatim>\<open>str(e)\<close>, ignores a
  failure of that send, and returns. In both cases the session is over.
\<close>

definition escape :: "io \<Rightarrow> action list \<Rightarrow> exn \<Rightarrow> session \<Rightarrow> outcome" where
  "escape w acts e st =
     (case e of
        WebSocketDisconnect \<Rightarrow> (acts, st, Closed)
      | _ \<Rightarrow>
          (if final_send_ok w then (acts @ [Send (Error_event (Str_of e) None)], st, Closed)
           else (acts, st, Closed)))"

definition standard_msg :: ustr where
  "standard_msg =
     u ''Aku menyesal kamu sedang merasa seperti ini. Keselamatanmu sangat penting. '' @
     u ''Jika kamu dalam bahaya segera, mohon hubungi layanan darurat setempat. '' @
     u ''Kamu tidak sendirian'' @ [8212] @
     u ''dukungan dari orang tepercaya atau profesional bisa membantu. '' @
     u ''Jika berkenan, aku bisa membagikan informasi bantuan resmi sesuai wilayahmu.''"

definition hardblock_msg :: ustr where
  "hardblock_msg =
     u ''Keselamatanmu sangat penting. Jika kamu dalam bahaya segera, mohon hubungi layanan darurat setempat sekarang. '' @
     u ''Kami tidak dapat memberikan detail cara atau langkah. Kamu tidak sendirian'' @ [8212] @
     u ''dukungan dari orang tepercaya atau profesional bisa membantu. '' @
     u ''Jika berkenan, aku bisa membagikan informasi bantuan resmi sesuai wilayahmu.''"

text \<open>
  The safety fallback (the block under \<^verbatim>\<open>if (response_type == "crisis" or ...) and not
  response_text\<close>): the type and the text after it.
\<close>

definition crisis_fallback :: "pylib \<Rightarrow> json \<Rightarrow> json \<Rightarrow> json \<Rightarrow> json \<times> json" where
  "crisis_fallback lib result response_type response_text =
     (if (response_type = JStr (u ''crisis'') \<or>
          (case result of JObj d \<Rightarrow> truthy (get d ''crisis_flag'') | _ \<Rightarrow> False)) \<and>
         \<not> truthy response_text
      then
        (let subtype =
               (case result of
                  JObj d \<Rightarrow>
                    (case get d ''meta'' of
                       JObj meta \<Rightarrow> py_or (get d ''subtype'') (get meta ''subtype'')
                     | _ \<Rightarrow> get d ''subtype'')
                | _ \<Rightarrow> JNull);
             method_intent =
               (case result of
                  JObj d \<Rightarrow>
                    truthy (py_or (get d ''method_intent'')
                      (case get d ''meta'' of
                         JObj meta \<Rightarrow> get meta ''method_intent''
                       | _ \<Rightarrow> JBool False))
                | _ \<Rightarrow> False)
         in if (truthy subtype \<and>
                lower lib (str lib subtype) \<in> set [u ''hard_block'', u ''hard-block'']) \<or>
               method_intent
            then (JStr (u ''crisis''), JStr hardblock_msg)
            else (JStr (u ''crisis''), JStr standard_msg))
      else (response_type, response_text))"

text \<open>The end of the pipeline: synthesis and streaming.\<close>

definition speak :: "pylib \<Rightarrow> settings \<Rightarrow> io \<Rightarrow> session \<Rightarrow> json \<Rightarrow> json \<Rightarrow> outcome" where
  "speak lib cfg w st response_type response_text =
     (let cleaned = clean_for_tts (word_unicode lib) (str lib response_text)
      in case stream_text_to_speech lib cfg cleaned response_type of
           Inl e \<Rightarrow> escape w [Call_tts cleaned response_type] e st
         | Inr (voice, media_type) \<Rightarrow>
             (case aiter (tts_stream w) of
                (chunks, failure) \<Rightarrow>
                  emit
                    ([Call_tts cleaned response_type,
                      Send (Audio_start media_type (py_or response_type (JStr (u ''unknown''))))] @
                     map (\<lambda>chunk. Send (Binary chunk)) chunks)
                    (case failure of
                       Some e \<Rightarrow> escape w [] e st
                     | None \<Rightarrow> ([Send Audio_end, Send Ready], st\<lparr>buffer := []\<rparr>, Running))))"

text \<open>From the orchestration result to the events (\<^verbatim>\<open># Normalize minimal shape\<close> and on).\<close>

definition respond :: "pylib \<Rightarrow> settings \<Rightarrow> io \<Rightarrow> session \<Rightarrow> json \<Rightarrow> json \<Rightarrow> outcome" where
  "respond lib cfg w st transcript result =
     (let response_type = (case result of JObj d \<Rightarrow> get d ''type'' | _ \<Rightarrow> JNull);
          response_text =
            (case result of
               JObj d \<Rightarrow> py_or (get d ''text'') (get d ''output'')
             | JStr s \<Rightarrow> result
             | _ \<Rightarrow> JNull)
      in case crisis_fallback lib result response_type response_text of
           (response_type, response_text) \<Rightarrow>
             (if \<not> truthy response_text then
                ([Send (Debug transcript result), Send (Error_event (Detail (u ''no_text'')) None)],
                 st\<lparr>buffer := []\<rparr>, Running)
              else if response_type = JStr (u ''crisis'') then
                ([Send (Crisis response_type response_text
                          (case result of JObj d \<Rightarrow> get d ''meta'' | _ \<Rightarrow> JNull)),
                  Send Ready],
                 st\<lparr>buffer := []\<rparr>, Running)
              else speak lib cfg w st response_type response_text))"

definition orchestrate :: "pylib \<Rightarrow> settings \<Rightarrow> io \<Rightarrow> session \<Rightarrow> json \<Rightarrow> outcome" where
  "orchestrate lib cfg w st transcript =
     (let call = Call_n8n (py_or (session_id st) (JStr (u ''session''))) transcript
      in case forward_to_n8n lib cfg (n8n_post w) of
           Inl e \<Rightarrow> escape w [call] e st
         | Inr result \<Rightarrow> emit [call] (respond lib cfg w st transcript result))"

text \<open>
  \<^verbatim>\<open>len(transcript or "")\<close> in the log line after the transcription: a true transcript that
  is a number or a Boolean has no length.
\<close>

fun has_len :: "json \<Rightarrow> bool" where
  "has_len (JStr s) = True"
| "has_len (JArr xs) = True"
| "has_len (JObj kvs) = True"
| "has_len v = False"

definition transcribe :: "pylib \<Rightarrow> settings \<Rightarrow> io \<Rightarrow> session \<Rightarrow> bytes \<Rightarrow> outcome" where
  "transcribe lib cfg w st wav_bytes =
     (let call = Call_stt wav_bytes (language st)
      in case stt_raw_bytes_to_text lib cfg (stt_post w) wav_bytes of
           Inl e \<Rightarrow> escape w [call] e st
         | Inr transcript \<Rightarrow>
             (if \<not> has_len transcript then escape w [call] TypeError st
              else emit [call] (orchestrate lib cfg w st transcript)))"

text \<open>The branch \<^verbatim>\<open>elif mtype == "stop"\<close>.\<close>

definition handle_stop :: "pylib \<Rightarrow> settings \<Rightarrow> io \<Rightarrow> session \<Rightarrow> outcome" where
  "handle_stop lib cfg w st =
     (if buffer st = [] then
        ([Send (Error_event (Detail (u ''empty_audio'')) None)], st, Running)
      else
        (case convert_to_wav lib (run_ffmpeg w) (buffer st) (input_mime st) of
           (r, calls) \<Rightarrow>
             (let call = Call_convert_to_wav (buffer st) (input_mime st) calls
              in case r of
                   Inl conv_err \<Rightarrow>
                     ([call, Send (Error_event (Detail (u ''wav_conversion_failed'')) (Some conv_err))],
                      st\<lparr>buffer := []\<rparr>, Running)
                 | Inr wav_bytes \<Rightarrow> emit [call] (transcribe lib cfg w st wav_bytes))))"

text \<open>A text frame: \<^verbatim>\<open>data.get\<close> needs a dict.\<close>

definition handle_text :: "pylib \<Rightarrow> settings \<Rightarrow> io \<Rightarrow> session \<Rightarrow> ustr \<Rightarrow> outcome" where
  "handle_text lib cfg w st txt =
     (let data =
            (if txt \<noteq> [] then
               (case json_loads lib txt of
                  None \<Rightarrow> JObj [(JStr (u ''type''), JStr (u ''invalid''))]
                | Some v \<Rightarrow> v)
             else JObj [])
      in case data of
           JObj d \<Rightarrow>
             (let mtype = get d ''type''
              in if mtype = JStr (u ''start'') then
                   ([Send Ready],
                    st\<lparr>buffer := [],
                       session_id := get d ''session_id'',
                       language := get d ''language'',
                       input_mime :=
                         py_or (py_or (get d ''content_type'') (get d ''mime''))
                           (JStr (u ''audio/webm''))\<rparr>,
                    Running)
                 else if mtype = JStr (u ''stop'') then handle_stop lib cfg w st
                 else ([Send (Error_event (Detail (u ''unknown_text_frame'')) None)], st, Running))
         | _ \<Rightarrow> escape w [] AttributeError st)"

text \<open>One turn of the loop \<^verbatim>\<open>while True: msg = await ws.receive()\<close>.\<close>

definition step :: "pylib \<Rightarrow> settings \<Rightarrow> io \<Rightarrow> session \<Rightarrow> frame \<Rightarrow> outcome" where
  "step lib cfg w st fr =
     (case fr of
        Disconnect \<Rightarrow> ([], st, Closed)
      | Text_frame txt \<Rightarrow> handle_text lib cfg w st txt
      | Bytes_frame b \<Rightarrow> ([], st\<lparr>buffer := buffer st @ b\<rparr>, Running)
      | Other_frame \<Rightarrow> ([], st, Running))"

text \<open>
  \<^verbatim>\<open>chat_socket\<close> on the frames that arrive, each with the answers of the outside world while
  it is handled. The session starts with an empty buffer and no metadata.
\<close>

definition new_session :: session where
  "new_session = \<lparr>buffer = [], session_id = JNull, language = JNull, input_mime = JNull\<rparr>"

fun run_session :: "pylib \<Rightarrow> settings \<Rightarrow> session \<Rightarrow> (frame \<times> io) list \<Rightarrow> outcome" where
  "run_session lib cfg st [] = ([], st, Running)"
| "run_session lib cfg st ((fr, w) # rest) =
     (case step lib cfg w st fr of
        (acts, st', Closed) \<Rightarrow> (acts, st', Closed)
      | (acts, st', Running) \<Rightarrow> emit acts (run_session lib cfg st' rest))"

definition chat_socket :: "pylib \<Rightarrow> settings \<Rightarrow> (frame \<times> io) list \<Rightarrow> outcome" where
  "chat_socket lib cfg frames = run_session lib cfg new_session frames"

text \<open>The events among the actions.\<close>

fun events :: "action list \<Rightarrow> event list" where
  "events [] = []"
| "events (Send e # acts) = e # events acts"
| "events (a # acts) = events acts"


section \<open>Example inputs\<close>

text \<open>
  Concrete inputs for the closed examples: the texts that \<^verbatim>\<open>json.loads\<close> is applied to and
  their values, a configuration with every credential set, and answers of the outside world.
  The examples are ASCII (but for the em dash of the canned messages, which nothing inspects),
  so the Unicode tables of the library are not consulted.
\<close>

definition stop_text :: ustr where
  \<open>stop_text = u ''{"type":"stop"}''\<close>

definition start_text :: ustr where
  \<open>start_text = u ''{"type":"start","content_type":"audio/wav"}''\<close>

definition stt_text :: ustr where
  \<open>stt_text = u ''{"text":"halo"}''\<close>

definition crisis_text :: ustr where
  \<open>crisis_text =
     u ''[{"json":{"type":"crisis","text":"","crisis_flag":true,"subtype":"hard_block"}}]''\<close>

definition crisis_value :: json where
  "crisis_value =
     JArr [JObj [(JStr (u ''json''),
       JObj [(JStr (u ''type''), JStr (u ''crisis'')), (JStr (u ''text''), JStr []),
             (JStr (u ''crisis_flag''), JBool True),
             (JStr (u ''subtype''), JStr (u ''hard_block''))])]]"

definition neutral_text :: ustr where
  \<open>neutral_text = u ''{"type":"neutral","text":"Hai! **Apa kabar**"}''\<close>

definition neutral_reply :: dict where
  "neutral_reply =
     [(JStr (u ''type''), JStr (u ''neutral'')),
      (JStr (u ''text''), JStr (u ''Hai! **Apa kabar**''))]"

definition neutral_value :: json where
  "neutral_value = JObj neutral_reply"

definition plain_text :: ustr where
  \<open>plain_text = u ''"Hai"''\<close>

definition silent_text :: ustr where
  \<open>silent_text = u ''{"text":""}''\<close>

definition nan_text :: ustr where
  \<open>nan_text = u ''NaN''\<close>

definition meta_text :: ustr where
  \<open>meta_text = u ''{"lang":"id"}''\<close>

definition example_loads :: "ustr \<Rightarrow> json option" where
  "example_loads s =
     map_of
       [(stop_text, JObj [(JStr (u ''type''), JStr (u ''stop''))]),
        (start_text,
         JObj [(JStr (u ''type''), JStr (u ''start'')),
               (JStr (u ''content_type''), JStr (u ''audio/wav''))]),
        (stt_text, JObj [(JStr (u ''text''), JStr (u ''halo''))]),
        (crisis_text, crisis_value),
        (neutral_text, neutral_value),
        (plain_text, JStr (u ''Hai'')),
        (silent_text, JObj [(JStr (u ''text''), JStr [])]),
        (nan_text, JNonFinite NaN),
        (meta_text, JObj [(JStr (u ''lang''), JStr (u ''id''))])] s"

definition example_lib :: pylib where
  "example_lib =
     \<lparr>json_loads = example_loads, lower_unicode = (\<lambda>s. s), word_unicode = ascii_words,
      repr = (\<lambda>v. [])\<rparr>"

definition example_cfg :: settings where
  "example_cfg =
     \<lparr>XI_API_KEY = u ''key'', VOICE_ID_EMPATHIC = [], VOICE_ID_NEUTRAL = u ''voice-n'',
      VOICE_ID_ALERT = [], VOICE_ID_CRISIS = [], N8N_WEBHOOK_URL = u ''http://n8n'',
      DEFAULT_VOICE_ID = u ''voice-d'', DEFAULT_TTS_FORMAT = u ''mp3_44100_128'',
      MAX_UPLOAD_MB = 10\<rparr>"

definition ok :: "ustr \<Rightarrow> http_post" where
  "ok b = Inr \<lparr>status_code = 200, body = b\<rparr>"

definition ffmpeg_fails :: ffmpeg where
  "ffmpeg_fails f = \<lparr>returncode = 1, stderr = [], out_exists = False, out_data = []\<rparr>"

definition two_chunks :: "exn + tts_response" where
  "two_chunks =
     Inr \<lparr>tts_status = 200, tts_detail = [], tts_chunks = [[1, 2], [3]], tts_failure = None\<rparr>"

definition example_io :: "ustr \<Rightarrow> io" where
  "example_io n8n_body =
     \<lparr>run_ffmpeg = ffmpeg_fails, stt_post = ok stt_text, n8n_post = ok n8n_body,
      tts_stream = two_chunks, final_send_ok = True\<rparr>"

text \<open>The same answers, but for a transcription of silence.\<close>

definition silent_io :: io where
  "silent_io = (example_io neutral_text)\<lparr>stt_post := ok silent_text\<rparr>"

text \<open>A session that has buffered one RIFF chunk declared as \<^verbatim>\<open>audio/wav\<close>.\<close>

definition riff :: bytes where
  "riff = [0x52, 0x49, 0x46, 0x46, 0x00]"

definition buffered :: session where
  "buffered =
     \<lparr>buffer = riff, session_id = JNull, language = JNull, input_mime = JStr (u ''audio/wav'')\<rparr>"


section \<open>Reading the outcome of an utterance\<close>

text \<open>Whether an action is a call of the synthesis adapter.\<close>

fun is_tts_call :: "action \<Rightarrow> bool" where
  "is_tts_call (Call_tts t ty) = True"
| "is_tts_call a = False"

text \<open>
  The outcomes of a \<^verbatim>\<open>stop\<close> whose buffer is not empty, read off the branches of the handler:
  the three replies after which the loop goes on with a cleared buffer and no synthesis (a failed
  conversion, no text, a crisis text), the streamed reply, and the two ways in which an
  exception reaches the outer handler (before anything was sent, or while audio is streamed),
  each with the error event of the outer handler or, when that send fails or the peer has
  disconnected, without it.
\<close>

definition utterance_outcome :: "io \<Rightarrow> session \<Rightarrow> outcome \<Rightarrow> bool" where
  "utterance_outcome w st r =
     (case r of (acts, st', s) \<Rightarrow>
        (s = Running \<and> st' = st\<lparr>buffer := []\<rparr> \<and> \<not> list_ex is_tts_call acts \<and>
           (\<exists>e. events acts = [Error_event (Detail (u ''wav_conversion_failed'')) (Some e)]))
      \<or> (s = Running \<and> st' = st\<lparr>buffer := []\<rparr> \<and> \<not> list_ex is_tts_call acts \<and>
           (\<exists>t x. events acts = [Debug t x, Error_event (Detail (u ''no_text'')) None]))
      \<or> (s = Running \<and> st' = st\<lparr>buffer := []\<rparr> \<and> \<not> list_ex is_tts_call acts \<and>
           (\<exists>tx m. events acts = [Crisis (JStr (u ''crisis'')) tx m, Ready]))
      \<or> (s = Running \<and> st' = st\<lparr>buffer := []\<rparr> \<and> list_ex is_tts_call acts \<and>
           (\<exists>x mt ty. tts_stream w = Inr x \<and>
              events acts = Audio_start mt ty # map Binary (tts_chunks x) @ [Audio_end, Ready]))
      \<or> (s = Closed \<and> st' = st \<and>
           (events acts = [] \<or> (\<exists>e. events acts = [Error_event (Str_of e) None])))
      \<or> (s = Closed \<and> st' = st \<and>
           (\<exists>mt ty chunks.
              events acts = Audio_start mt ty # map Binary chunks \<or>
              (\<exists>e. events acts =
                 Audio_start mt ty # map Binary chunks @ [Error_event (Str_of e) None]))))"

text \<open>A text frame that parses to a dict whose \<^verbatim>\<open>type\<close> is \<^verbatim>\<open>stop\<close>.\<close>

definition stop_frame :: "pylib \<Rightarrow> ustr \<Rightarrow> bool" where
  "stop_frame lib txt \<longleftrightarrow>
     txt \<noteq> [] \<and>
     (case json_loads lib txt of
        Some (JObj d) \<Rightarrow> get d ''type'' = JStr (u ''stop'')
      | _ \<Rightarrow> False)"


text \<open>A lookup under \<^verbatim>\<open>meta\<close>, when that is a mapping.\<close>

definition under_meta :: "dict \<Rightarrow> string \<Rightarrow> json" where
  "under_meta d k = (case get d ''meta'' of JObj meta \<Rightarrow> get meta k | _ \<Rightarrow> JNull)"

text \<open>Equality of two strings up to the case of the ASCII letters.\<close>

definition ci_equal :: "ustr \<Rightarrow> ustr \<Rightarrow> bool" where
  "ci_equal a b =
     list_all2 (\<lambda>x y. x = y \<or> (65 \<le> x \<and> x \<le> 90 \<and> y = x + 32) \<or> (65 \<le> y \<and> y \<le> 90 \<and> x = y + 32))
       a b"

definition names_hard_block :: "json \<Rightarrow> bool" where
  "names_hard_block v =
     (case v of
        JStr s \<Rightarrow> ci_equal s (u ''hard_block'') \<or> ci_equal s (u ''hard-block'')
      | _ \<Rightarrow> False)"

text \<open>
  The decision of the safety fallback in the words of the specification: the hard-block message
  is chosen when the subtype, at the top level or under \<^verbatim>\<open>meta\<close>, is \<^verbatim>\<open>hard_block\<close> or
  \<^verbatim>\<open>hard-block\<close> up to case, or when \<^verbatim>\<open>method_intent\<close> is true at the top level or under
  \<^verbatim>\<open>meta\<close>.
\<close>

definition spec_hard_block :: "dict \<Rightarrow> bool" where
  "spec_hard_block d \<longleftrightarrow>
     names_hard_block (get d ''subtype'') \<or> names_hard_block (under_meta d ''subtype'') \<or>
     truthy (get d ''method_intent'') \<or> truthy (under_meta d ''method_intent'')"

text \<open>
  The decision as the handler takes it. It looks at one subtype: the one at the top level when
  that is true, else the one under \<^verbatim>\<open>meta\<close>. The hard-block message is chosen when that
  subtype is true and \<^verbatim>\<open>str(subtype).lower()\<close> is \<^verbatim>\<open>hard_block\<close> or \<^verbatim>\<open>hard-block\<close>, or
  when \<^verbatim>\<open>method_intent\<close> is true at the top level or under \<^verbatim>\<open>meta\<close>.
\<close>

definition selected_subtype :: "dict \<Rightarrow> json" where
  "selected_subtype d =
     (if truthy (get d ''subtype'') then get d ''subtype''
      else (case get d ''meta'' of JObj meta \<Rightarrow> get meta ''subtype'' | _ \<Rightarrow> get d ''subtype''))"

definition hard_block_chosen :: "pylib \<Rightarrow> dict \<Rightarrow> bool" where
  "hard_block_chosen lib d \<longleftrightarrow>
     (truthy (selected_subtype d) \<and>
      (lower lib (str lib (selected_subtype d)) = u ''hard_block'' \<or>
       lower lib (str lib (selected_subtype d)) = u ''hard-block'')) \<or>
     truthy (get d ''method_intent'') \<or> truthy (under_meta d ''method_intent'')"

text \<open>
  Two crisis replies without text: one whose top-level subtype is \<^verbatim>\<open>soft\<close> while the one
  under \<^verbatim>\<open>meta\<close> is \<^verbatim>\<open>hard_block\<close>, and one whose only subtype is under \<^verbatim>\<open>meta\<close>, in
  mixed case.
\<close>

definition shadowed_reply :: dict where
  "shadowed_reply =
     [(JStr (u ''type''), JStr (u ''crisis'')), (JStr (u ''text''), JStr []),
      (JStr (u ''subtype''), JStr (u ''soft'')),
      (JStr (u ''meta''), JObj [(JStr (u ''subtype''), JStr (u ''hard_block''))])]"

definition meta_reply :: dict where
  "meta_reply =
     [(JStr (u ''type''), JStr (u ''crisis'')),
      (JStr (u ''meta''), JObj [(JStr (u ''subtype''), JStr (u ''Hard-Block''))])]"









text \<open>
  Reading one run of the external tool: whether it succeeded (exit code 0 and an output file), and
  what \<^verbatim>\<open>convert_to_wav\<close> makes of a run that succeeded.
\<close>

definition run_ok :: "proc \<Rightarrow> bool" where
  "run_ok p \<longleftrightarrow> returncode p = 0 \<and> out_exists p"

definition wav_of :: "proc \<Rightarrow> exn + bytes" where
  "wav_of p =
     (if out_data p = [] then Inl (RuntimeError (u ''ffmpeg produced empty output''))
      else Inr (out_data p))"

text \<open>A tool that fails on every format but \<^verbatim>\<open>ogg\<close>, for which it writes two bytes.\<close>

definition ffmpeg_ogg :: ffmpeg where
  "ffmpeg_ogg f =
     (if f = Some (u ''ogg'')
      then \<lparr>returncode = 0, stderr = [], out_exists = True, out_data = [0x52, 0x49]\<rparr>
      else \<lparr>returncode = 1, stderr = [], out_exists = False, out_data = []\<rparr>)"

section \<open>Whitespace runs\<close>

text \<open>
  Steps 7 and 8 of the sanitizer only change whitespace. To reason about them a string is read as
  the runs of whitespace before each of its other characters, followed by the run at its end:
  \<open>imap f l items wsN\<close> writes the string out again after \<open>f\<close> has rewritten each run, given
  the character to its left (\<open>l\<close> for the first run) and the character to its right.
\<close>

definition all_space :: "ustr \<Rightarrow> bool" where
  "all_space ws = list_all is_space ws"

type_synonym run_fun = "nat option \<Rightarrow> ustr \<Rightarrow> nat option \<Rightarrow> ustr"

fun imap :: "run_fun \<Rightarrow> nat option \<Rightarrow> (ustr \<times> nat) list \<Rightarrow> ustr \<Rightarrow> ustr" where
  "imap f l [] wsN = f l wsN None"
| "imap f l ((ws, c) # items) wsN = f l ws (Some c) @ c # imap f (Some c) items wsN"

fun valid_items :: "(ustr \<times> nat) list \<Rightarrow> bool" where
  "valid_items [] = True"
| "valid_items ((ws, c) # items) = (all_space ws \<and> \<not> is_space c \<and> valid_items items)"

text \<open>The run transformation that changes nothing, and the context to the left of a string.\<close>

definition keep :: run_fun where
  "keep l ws r = ws"

fun pre :: "nat option \<Rightarrow> ustr" where
  "pre None = []"
| "pre (Some c) = [c]"

fun okl :: "nat option \<Rightarrow> bool" where
  "okl None = True"
| "okl (Some c) = (\<not> is_space c)"

text \<open>
  The patterns \<^verbatim>\<open>\s+([,.!?\<dots>])\<close> and \<^verbatim>\<open>\s+\)\<close> have one shape: a run of whitespace before a
  character of a class, which is kept.
\<close>

definition m_space_before :: "(nat \<Rightarrow> bool) \<Rightarrow> matcher" where
  "m_space_before Q p s =
     (let ws = takeWhile is_space s
      in case dropWhile is_space s of
           [] \<Rightarrow> None
         | q # r \<Rightarrow> if ws \<noteq> [] \<and> Q q then Some ([q], length ws + 1) else None)"

text \<open>
  What each substitution does to a run: a run before a character of the class is deleted, a run
  after an opening parenthesis is deleted, a run of two or more characters becomes one space.
\<close>

definition f_before :: "(nat \<Rightarrow> bool) \<Rightarrow> run_fun" where
  "f_before Q l ws r = (case r of Some q \<Rightarrow> if Q q then [] else ws | None \<Rightarrow> ws)"

definition f_after :: run_fun where
  "f_after l ws r = (if l = Some 40 then [] else ws)"

definition f_collapse :: run_fun where
  "f_collapse l ws r = (if 2 \<le> length ws then [32] else ws)"

text \<open>One transformation after another, and the transformations that map whitespace to whitespace.\<close>

fun itrans :: "run_fun \<Rightarrow> nat option \<Rightarrow> (ustr \<times> nat) list \<Rightarrow> (ustr \<times> nat) list" where
  "itrans f l [] = []"
| "itrans f l ((ws, c) # items) = (f l ws (Some c), c) # itrans f (Some c) items"

fun ilast :: "nat option \<Rightarrow> (ustr \<times> nat) list \<Rightarrow> nat option" where
  "ilast l [] = l"
| "ilast l ((ws, c) # items) = ilast (Some c) items"

definition cmp :: "run_fun \<Rightarrow> run_fun \<Rightarrow> run_fun" where
  "cmp g f l ws r = g l (f l ws r) r"

definition sp :: "run_fun \<Rightarrow> bool" where
  "sp f \<longleftrightarrow> (\<forall>l ws r. all_space ws \<longrightarrow> all_space (f l ws r))"

text \<open>Steps 7 and 8 together, on a string and on a run.\<close>

definition tidy :: "ustr \<Rightarrow> ustr" where
  "tidy s = re_sub m_spaces None (re_sub m_space_paren None
     (re_sub m_paren_space None (re_sub m_space_punct None s)))"

definition f_tidy :: run_fun where
  "f_tidy = cmp f_collapse (cmp (f_before (\<lambda>q. q = 41)) (cmp f_after (f_before is_punct)))"

text \<open>
  Steps 1 to 5 of \<^verbatim>\<open>clean_for_tts\<close> on their own: the removal of type tags, escaped
  newlines, links, emphasis markers, backticks and heading marks.
\<close>

definition remove_markup :: "(nat \<Rightarrow> bool) \<Rightarrow> ustr \<Rightarrow> ustr" where
  "remove_markup W text =
     (let s = re_sub m_type_tag None text;
          s = replace [92, 110] [10] s;
          s = replace [13, 10] [10] s;
          s = re_sub m_md_link None s;
          s = replace [95, 95] [] (replace [42, 42] [] s);
          s = replace [96] [] s;
          s = re_sub (m_emphasis W) None s
      in re_sub m_heading None s)"

text \<open>Step 6 on its own: the lines, each with its terminal mark, joined by a space.\<close>

definition sentences :: "ustr \<Rightarrow> ustr" where
  "sentences s = join [32] (map end_line (lines_of s))"

text \<open>
  Text without the characters that the markup steps look for: the asterisk, the underscore, the
  opening bracket, the backslash and the number sign.
\<close>

definition markup_free :: "ustr \<Rightarrow> bool" where
  "markup_free s = list_all (\<lambda>c. c \<noteq> 42 \<and> c \<noteq> 95 \<and> c \<noteq> 91 \<and> c \<noteq> 92 \<and> c \<noteq> 35) s"

section \<open>Properties of the sanitizer\<close>

lemmas clean_eval = clean_for_tts_def u_def m_type_tag_def match_type_tag_def m_md_link_def
  m_emphasis_def m_heading_def m_space_punct_def m_paren_space_def m_space_paren_def m_spaces_def
  is_space_def is_word_def is_tag_char_def is_terminal_def is_punct_def lines_of_def end_line_def
  strip_def lstrip_def rstrip_def Let_def

lemma re_sub_last:
  assumes m: "\<And>p s rep n. m p s = Some (rep, n) \<Longrightarrow>
      0 < n \<and> n \<le> length s \<and> (n = length s \<longrightarrow> \<not> is_space (last s) \<longrightarrow> rep \<noteq> [] \<and> last rep = last s)"
  shows "s \<noteq> [] \<Longrightarrow> \<not> is_space (last s) \<Longrightarrow>
     re_sub m p s \<noteq> [] \<and> last (re_sub m p s) = last s"
proof (induction "length s" arbitrary: s p rule: less_induct)
  case less
  have nil: "re_sub m q [] = []" for q
    by (cases "m q []") (auto dest: m)
  from less.prems obtain c cs where s: "s = c # cs" by (cases s) auto
  show ?case
  proof (cases "m p (c # cs)")
    case None
    show ?thesis
    proof (cases cs)
      case Nil
      with None s nil show ?thesis by simp
    next
      case (Cons d ds)
      with less.hyps [of cs "Some c"] less.prems s None show ?thesis by simp
    qed
  next
    case (Some a)
    obtain rep n where a: "a = (rep, n)" by (cases a)
    from m [of p "c # cs" rep n] Some a
    have n: "0 < n" "n \<le> Suc (length cs)"
      and e: "n = Suc (length cs) \<Longrightarrow> rep \<noteq> [] \<and> last rep = last (c # cs)"
      using less.prems s by auto
    show ?thesis
    proof (cases "drop (n - 1) cs = []")
      case True
      then have "n = Suc (length cs)" using n by auto
      with e Some a True n nil s show ?thesis by simp
    next
      case False
      then have l: "last (drop (n - 1) cs) = last (c # cs)" by auto
      have "length (drop (n - 1) cs) < length s" using s by simp
      from less.hyps [OF this False, of "Some ((c # cs) ! (n - 1))"] l less.prems s
      show ?thesis using Some a n by simp
    qed
  qed
qed

lemma m_space_punct_last:
  assumes "m_space_punct p s = Some (rep, n)"
  shows "0 < n \<and> n \<le> length s \<and>
    (n = length s \<longrightarrow> \<not> is_space (last s) \<longrightarrow> rep \<noteq> [] \<and> last rep = last s)"
proof -
  from assms obtain q r where d: "dropWhile is_space s = q # r"
    and rep: "rep = [q]" and n: "n = length (takeWhile is_space s) + 1"
    by (auto simp: m_space_punct_def Let_def split: list.splits if_splits)
  have s: "s = takeWhile is_space s @ q # r"
    using takeWhile_dropWhile_id [of is_space s] d by simp
  have len: "length s = length (takeWhile is_space s) + 1 + length r"
    using arg_cong [OF s, of length] by simp
  have "n = length s \<Longrightarrow> last s = q"
  proof -
    assume "n = length s"
    with len n have "r = []" by simp
    with s have "s = takeWhile is_space s @ [q]" by simp
    then show "last s = q" by (metis last_snoc)
  qed
  with n len rep show ?thesis by auto
qed

lemma m_space_paren_last:
  assumes "m_space_paren p s = Some (rep, n)"
  shows "0 < n \<and> n \<le> length s \<and>
    (n = length s \<longrightarrow> \<not> is_space (last s) \<longrightarrow> rep \<noteq> [] \<and> last rep = last s)"
proof -
  from assms obtain q r where d: "dropWhile is_space s = q # r"
    and rep: "rep = [q]" and n: "n = length (takeWhile is_space s) + 1"
    by (auto simp: m_space_paren_def Let_def split: list.splits if_splits)
  have s: "s = takeWhile is_space s @ q # r"
    using takeWhile_dropWhile_id [of is_space s] d by simp
  have len: "length s = length (takeWhile is_space s) + 1 + length r"
    using arg_cong [OF s, of length] by simp
  have "n = length s \<Longrightarrow> last s = q"
  proof -
    assume "n = length s"
    with len n have "r = []" by simp
    with s have "s = takeWhile is_space s @ [q]" by simp
    then show "last s = q" by (metis last_snoc)
  qed
  with n len rep show ?thesis by auto
qed

lemma takeWhile_all_last:
  assumes "length (takeWhile P s) = length s" "s \<noteq> []"
  shows "P (last s)"
proof -
  have "takeWhile P s = s"
    using assms(1) takeWhile_dropWhile_id [of P s]
    by (metis append_eq_conv_conj take_all order_refl)
  then have "\<forall>x\<in>set s. P x" by (metis set_takeWhileD)
  with assms(2) show ?thesis by simp
qed

lemma m_paren_space_last:
  assumes "m_paren_space p s = Some (rep, n)"
  shows "0 < n \<and> n \<le> length s \<and>
    (n = length s \<longrightarrow> \<not> is_space (last s) \<longrightarrow> rep \<noteq> [] \<and> last rep = last s)"
proof -
  from assms obtain c cs where s: "s = c # cs" and ws: "takeWhile is_space cs \<noteq> []"
    and n: "n = 1 + length (takeWhile is_space cs)"
    by (auto simp: m_paren_space_def Let_def split: list.splits if_splits)
  have le: "length (takeWhile is_space cs) \<le> length cs" by (rule length_takeWhile_le)
  have "n = length s \<Longrightarrow> is_space (last s)"
  proof -
    assume "n = length s"
    with n s have e: "length (takeWhile is_space cs) = length cs" by simp
    from ws have "cs \<noteq> []" by auto
    with takeWhile_all_last [OF e] s show ?thesis by simp
  qed
  with n s le show ?thesis by auto
qed

lemma m_spaces_last:
  assumes "m_spaces p s = Some (rep, n)"
  shows "0 < n \<and> n \<le> length s \<and>
    (n = length s \<longrightarrow> \<not> is_space (last s) \<longrightarrow> rep \<noteq> [] \<and> last rep = last s)"
proof -
  from assms have n: "n = length (takeWhile is_space s)" and two: "2 \<le> n"
    by (auto simp: m_spaces_def Let_def split: if_splits)
  have le: "length (takeWhile is_space s) \<le> length s" by (rule length_takeWhile_le)
  have "n = length s \<Longrightarrow> is_space (last s)"
  proof -
    assume e: "n = length s"
    with two have "s \<noteq> []" by auto
    with takeWhile_all_last [of is_space s] e n show ?thesis by simp
  qed
  with n two le show ?thesis by auto
qed


lemma terminal_not_space: "is_terminal c \<Longrightarrow> \<not> is_space c"
  by (auto simp: is_terminal_def is_space_def)

lemma end_line_last: "end_line l \<noteq> [] \<and> is_terminal (last (end_line l))"
  by (simp add: end_line_def is_terminal_def)

lemma join_last:
  "ls \<noteq> [] \<Longrightarrow> \<forall>l\<in>set ls. l \<noteq> [] \<Longrightarrow>
     join sep ls \<noteq> [] \<and> last (join sep ls) = last (last ls)"
  by (induction sep ls rule: join.induct) auto

lemma dropWhile_last:
  "s \<noteq> [] \<Longrightarrow> \<not> P (last s) \<Longrightarrow> dropWhile P s \<noteq> [] \<and> last (dropWhile P s) = last s"
  by (induction s) (auto split: if_splits)

lemma rstrip_id: "s \<noteq> [] \<Longrightarrow> \<not> is_space (last s) \<Longrightarrow> rstrip s = s"
  by (cases s rule: rev_cases) (auto simp: rstrip_def)

lemma strip_last:
  "s \<noteq> [] \<Longrightarrow> \<not> is_space (last s) \<Longrightarrow> strip s \<noteq> [] \<and> last (strip s) = last s"
  using dropWhile_last [of s is_space] rstrip_id [of "dropWhile is_space s"]
  by (simp add: strip_def lstrip_def)

lemma punctuate_tail_last:
  assumes "s \<noteq> []" "is_terminal (last s)"
  shows "strip (re_sub m_spaces None (re_sub m_space_paren None
           (re_sub m_paren_space None (re_sub m_space_punct None s)))) \<noteq> [] \<and>
         last (strip (re_sub m_spaces None (re_sub m_space_paren None
           (re_sub m_paren_space None (re_sub m_space_punct None s))))) = last s"
proof -
  note ns = terminal_not_space [OF assms(2)]
  have 1: "re_sub m_space_punct None s \<noteq> [] \<and> last (re_sub m_space_punct None s) = last s"
    using re_sub_last [of m_space_punct s None] m_space_punct_last assms(1) ns by blast
  have 2: "re_sub m_paren_space None (re_sub m_space_punct None s) \<noteq> [] \<and>
      last (re_sub m_paren_space None (re_sub m_space_punct None s)) = last s"
    using re_sub_last [of m_paren_space "re_sub m_space_punct None s" None]
      m_paren_space_last 1 ns by (metis (no_types, lifting))
  have 3: "re_sub m_space_paren None (re_sub m_paren_space None (re_sub m_space_punct None s)) \<noteq> [] \<and>
      last (re_sub m_space_paren None (re_sub m_paren_space None (re_sub m_space_punct None s))) = last s"
    using re_sub_last [of m_space_paren "re_sub m_paren_space None (re_sub m_space_punct None s)" None]
      m_space_paren_last 2 ns by (metis (no_types, lifting))
  have 4: "re_sub m_spaces None (re_sub m_space_paren None (re_sub m_paren_space None (re_sub m_space_punct None s))) \<noteq> [] \<and>
      last (re_sub m_spaces None (re_sub m_space_paren None (re_sub m_paren_space None (re_sub m_space_punct None s)))) = last s"
    using re_sub_last [of m_spaces "re_sub m_space_paren None (re_sub m_paren_space None (re_sub m_space_punct None s))" None]
      m_spaces_last 3 ns by (metis (no_types, lifting))
  from strip_last [of "re_sub m_spaces None (re_sub m_space_paren None (re_sub m_paren_space None (re_sub m_space_punct None s)))"]
    4 ns show ?thesis by simp
qed

lemma joined_lines_last:
  "join [32] (map end_line (lines_of s)) = [] \<or>
   is_terminal (last (join [32] (map end_line (lines_of s))))"
proof (cases "lines_of s = []")
  case True
  then show ?thesis by simp
next
  case False
  then have ne: "map end_line (lines_of s) \<noteq> []" by simp
  have all: "\<forall>l\<in>set (map end_line (lines_of s)). l \<noteq> []"
    using end_line_last by auto
  from join_last [OF ne all, of "[32]"]
  have "last (join [32] (map end_line (lines_of s))) = last (end_line (last (lines_of s)))"
    using False by (simp add: last_map)
  with end_line_last show ?thesis by simp
qed

lemma punctuate_tail_Nil:
  "strip (re_sub m_spaces None (re_sub m_space_paren None
           (re_sub m_paren_space None (re_sub m_space_punct None [])))) = []"
  by (simp add: m_spaces_def m_space_paren_def m_paren_space_def m_space_punct_def
      strip_def lstrip_def rstrip_def)

lemma clean_for_tts_last:
  "clean_for_tts W x \<noteq> [] \<Longrightarrow> is_terminal (last (clean_for_tts W x))"
proof -
  assume ne: "clean_for_tts W x \<noteq> []"
  then have x: "x \<noteq> []" by (auto simp: clean_for_tts_def)
  define s5 where "s5 = re_sub m_heading None (re_sub (m_emphasis W) None
     (replace [96] [] (replace [95, 95] [] (replace [42, 42] []
       (re_sub m_md_link None (replace [13, 10] [10] (replace [92, 110] [10]
          (re_sub m_type_tag None x))))))))"
  define s6 where "s6 = join [32] (map end_line (lines_of s5))"
  have c: "clean_for_tts W x = strip (re_sub m_spaces None (re_sub m_space_paren None
           (re_sub m_paren_space None (re_sub m_space_punct None s6))))"
    using x by (simp add: clean_for_tts_def Let_def s5_def s6_def)
  from joined_lines_last [of s5] have "s6 = [] \<or> is_terminal (last s6)"
    by (simp add: s6_def)
  then show ?thesis
  proof
    assume "s6 = []"
    with c punctuate_tail_Nil ne show ?thesis by simp
  next
    assume t: "is_terminal (last s6)"
    show ?thesis
    proof (cases "s6 = []")
      case True
      with c punctuate_tail_Nil ne show ?thesis by simp
    next
      case False
      from punctuate_tail_last [OF False t] c t show ?thesis by simp
    qed
  qed
qed


section \<open>Properties of the realtime session\<close>

lemmas example_defs = example_lib_def example_loads_def stop_text_def start_text_def
  stt_text_def crisis_text_def crisis_value_def neutral_text_def neutral_value_def
  neutral_reply_def plain_text_def silent_text_def nan_text_def meta_text_def silent_io_def
  example_cfg_def ok_def ffmpeg_fails_def two_chunks_def example_io_def riff_def buffered_def
  new_session_def ascii_words_def

lemmas session_eval = step_def handle_text_def handle_stop_def transcribe_def orchestrate_def
  respond_def speak_def crisis_fallback_def forward_to_n8n_def n8n_shape_def
  stt_raw_bytes_to_text_def convert_to_wav_def stream_text_to_speech_def voice_for_type_def
  media_type_for_format_def aiter_def emit_def escape_def get_def get_default_def has_key_def
  py_or_def lower_def TYPE_TO_VOICE_def wav_types_def mime_base_def u_def

lemma events_append: "events (a @ b) = events a @ events b"
  by (induction a rule: events.induct) auto

lemma events_chunks: "events (map (\<lambda>c. Send (Binary c)) cs) = map Binary cs"
  by (induction cs) auto

lemma list_ex_chunks: "\<not> list_ex is_tts_call (map (\<lambda>c. Send (Binary c)) cs)"
  by (induction cs) auto

lemma utterance_outcome_emit:
  assumes "utterance_outcome w st r" "events call = []" "\<not> list_ex is_tts_call call"
  shows "utterance_outcome w st (emit call r)"
proof -
  obtain acts st' s where r: "r = (acts, st', s)" by (cases r)
  show ?thesis
    using assms unfolding r utterance_outcome_def emit_def
    by (simp add: events_append)
qed

lemma escape_cases:
  "escape w acts e st = (acts, st, Closed) \<or>
   escape w acts e st = (acts @ [Send (Error_event (Str_of e) None)], st, Closed)"
  by (cases e) (simp_all add: escape_def)

lemma aiter_complete:
  assumes "aiter stream = (chunks, None)"
  shows "\<exists>x. stream = Inr x \<and> chunks = tts_chunks x"
  using assms by (auto simp: aiter_def split: sum.splits if_splits)

lemma speak_outcome: "utterance_outcome w st (speak lib cfg w st ty tx)"
proof (cases "stream_text_to_speech lib cfg (clean_for_tts (word_unicode lib) (str lib tx)) ty")
  case (Inl e)
  then have s: "speak lib cfg w st ty tx =
      escape w [Call_tts (clean_for_tts (word_unicode lib) (str lib tx)) ty] e st"
    by (simp add: speak_def Let_def)
  from escape_cases [of w "[Call_tts (clean_for_tts (word_unicode lib) (str lib tx)) ty]" e st]
  show ?thesis
    unfolding s by (elim disjE) (simp_all add: utterance_outcome_def events_append)
next
  case (Inr vm)
  obtain voice mt where vm: "vm = (voice, mt)" by (cases vm)
  obtain chunks failure where a: "aiter (tts_stream w) = (chunks, failure)"
    by (cases "aiter (tts_stream w)")
  define pre where "pre = [Call_tts (clean_for_tts (word_unicode lib) (str lib tx)) ty,
      Send (Audio_start mt (py_or ty (JStr (u ''unknown''))))] @ map (\<lambda>chunk. Send (Binary chunk)) chunks"
  have ev: "events pre = Audio_start mt (py_or ty (JStr (u ''unknown''))) # map Binary chunks"
    by (simp add: pre_def events_chunks)
  show ?thesis
  proof (cases failure)
    case None
    with a aiter_complete obtain x where x: "tts_stream w = Inr x" "chunks = tts_chunks x" by blast
    have s: "speak lib cfg w st ty tx = (pre @ [Send Audio_end, Send Ready], st\<lparr>buffer := []\<rparr>, Running)"
      using Inr vm a None by (simp add: speak_def Let_def emit_def pre_def)
    have l: "list_ex is_tts_call (pre @ [Send Audio_end, Send Ready])"
      by (simp add: pre_def)
    show ?thesis
      unfolding s utterance_outcome_def using x l ev by (simp add: events_append)
  next
    case (Some e)
    have s: "speak lib cfg w st ty tx = emit pre (escape w [] e st)"
      using Inr vm a Some by (simp add: speak_def Let_def pre_def)
    from escape_cases [of w "[]" e st] show ?thesis
    proof
      assume "escape w [] e st = ([], st, Closed)"
      then have "speak lib cfg w st ty tx = (pre, st, Closed)"
        using s by (simp add: emit_def)
      then show ?thesis
        unfolding utterance_outcome_def using ev by simp blast
    next
      assume "escape w [] e st = ([] @ [Send (Error_event (Str_of e) None)], st, Closed)"
      then have "speak lib cfg w st ty tx = (pre @ [Send (Error_event (Str_of e) None)], st, Closed)"
        using s by (simp add: emit_def)
      then show ?thesis
        unfolding utterance_outcome_def using ev by (simp add: events_append) blast
    qed
  qed
qed

lemma fallback_messages: "hardblock_msg \<noteq> []" "standard_msg \<noteq> []"
  by (simp_all add: hardblock_msg_def standard_msg_def u_def)

lemma utterance_outcome_no_text:
  "utterance_outcome w st
     ([Send (Debug t x), Send (Error_event (Detail (u ''no_text'')) None)],
      st\<lparr>buffer := []\<rparr>, Running)"
  by (simp add: utterance_outcome_def)

lemma utterance_outcome_crisis:
  "utterance_outcome w st
     ([Send (Crisis (JStr (u ''crisis'')) tx m), Send Ready], st\<lparr>buffer := []\<rparr>, Running)"
  by (simp add: utterance_outcome_def)

lemma utterance_outcome_escape:
  "events call = [] \<Longrightarrow> utterance_outcome w st (escape w call e st)"
  by (cases e) (simp_all add: utterance_outcome_def escape_def events_append)

lemma respond_unfold:
  assumes "crisis_fallback lib x
      (case x of JObj d \<Rightarrow> get d ''type'' | _ \<Rightarrow> JNull)
      (case x of JObj d \<Rightarrow> py_or (get d ''text'') (get d ''output'') | JStr s \<Rightarrow> x | _ \<Rightarrow> JNull)
      = (ty, tx)"
  shows "respond lib cfg w st t x =
      (if \<not> truthy tx then
         ([Send (Debug t x), Send (Error_event (Detail (u ''no_text'')) None)],
          st\<lparr>buffer := []\<rparr>, Running)
       else if ty = JStr (u ''crisis'') then
         ([Send (Crisis ty tx (case x of JObj d \<Rightarrow> get d ''meta'' | _ \<Rightarrow> JNull)), Send Ready],
          st\<lparr>buffer := []\<rparr>, Running)
       else speak lib cfg w st ty tx)"
  unfolding respond_def Let_def assms by simp

lemma respond_outcome: "utterance_outcome w st (respond lib cfg w st t x)"
proof -
  obtain ty tx where f: "crisis_fallback lib x
      (case x of JObj d \<Rightarrow> get d ''type'' | _ \<Rightarrow> JNull)
      (case x of JObj d \<Rightarrow> py_or (get d ''text'') (get d ''output'') | JStr s \<Rightarrow> x | _ \<Rightarrow> JNull)
      = (ty, tx)"
    by (cases "crisis_fallback lib x
      (case x of JObj d \<Rightarrow> get d ''type'' | _ \<Rightarrow> JNull)
      (case x of JObj d \<Rightarrow> py_or (get d ''text'') (get d ''output'') | JStr s \<Rightarrow> x | _ \<Rightarrow> JNull)")
  show ?thesis
    unfolding respond_unfold [OF f]
    using speak_outcome utterance_outcome_no_text utterance_outcome_crisis by simp
qed

lemma orchestrate_outcome: "utterance_outcome w st (orchestrate lib cfg w st t)"
proof (cases "forward_to_n8n lib cfg (n8n_post w)")
  case (Inl e)
  then show ?thesis
    by (simp add: orchestrate_def Let_def utterance_outcome_escape)
next
  case (Inr x)
  then show ?thesis
    by (simp add: orchestrate_def Let_def utterance_outcome_emit respond_outcome)
qed

lemma transcribe_outcome: "utterance_outcome w st (transcribe lib cfg w st wav)"
proof (cases "stt_raw_bytes_to_text lib cfg (stt_post w) wav")
  case (Inl e)
  then show ?thesis
    by (simp add: transcribe_def Let_def utterance_outcome_escape)
next
  case (Inr t)
  then show ?thesis
    by (simp add: transcribe_def Let_def utterance_outcome_escape utterance_outcome_emit
        orchestrate_outcome)
qed

lemma handle_stop_outcome:
  "(buffer st = [] \<and>
      handle_stop lib cfg w st = ([Send (Error_event (Detail (u ''empty_audio'')) None)], st, Running)) \<or>
   (buffer st \<noteq> [] \<and> utterance_outcome w st (handle_stop lib cfg w st))"
proof (cases "buffer st = []")
  case True
  then show ?thesis by (simp add: handle_stop_def)
next
  case False
  obtain r calls where c: "convert_to_wav lib (run_ffmpeg w) (buffer st) (input_mime st) = (r, calls)"
    by (cases "convert_to_wav lib (run_ffmpeg w) (buffer st) (input_mime st)")
  have "utterance_outcome w st (handle_stop lib cfg w st)"
  proof (cases r)
    case (Inl e)
    with False c show ?thesis by (simp add: handle_stop_def Let_def utterance_outcome_def)
  next
    case (Inr wav)
    with False c show ?thesis
      by (simp add: handle_stop_def Let_def utterance_outcome_emit transcribe_outcome)
  qed
  with False show ?thesis by simp
qed


lemma step_stop_frame:
  "stop_frame lib txt \<Longrightarrow> step lib cfg w st (Text_frame txt) = handle_stop lib cfg w st"
  by (auto simp: stop_frame_def step_def handle_text_def Let_def u_def
      split: option.splits json.splits)

lemma handle_text_cases:
  "handle_text lib cfg w st txt = escape w [] AttributeError st \<or>
   (\<exists>st'. handle_text lib cfg w st txt = ([Send Ready], st', Running)) \<or>
   handle_text lib cfg w st txt =
     ([Send (Error_event (Detail (u ''unknown_text_frame'')) None)], st, Running) \<or>
   handle_text lib cfg w st txt = handle_stop lib cfg w st"
  unfolding handle_text_def Let_def
  by (simp split: json.splits option.splits)

lemma neutral_step:
  "step example_lib example_cfg (example_io neutral_text) buffered (Text_frame stop_text) =
     ([Call_convert_to_wav riff (JStr (u ''audio/wav'')) [],
       Call_stt riff JNull,
       Call_n8n (JStr (u ''session'')) (JStr (u ''halo'')),
       Call_tts (u ''Hai! Apa kabar.'') (JStr (u ''neutral'')),
       Send (Audio_start (u ''audio/mpeg'') (JStr (u ''neutral''))),
       Send (Binary [1, 2]), Send (Binary [3]), Send Audio_end, Send Ready],
      buffered\<lparr>buffer := []\<rparr>, Running)"
  by (simp add: session_eval example_defs clean_eval)

lemma crisis_step:
  "step example_lib example_cfg (example_io crisis_text) buffered (Text_frame stop_text) =
     ([Call_convert_to_wav riff (JStr (u ''audio/wav'')) [],
       Call_stt riff JNull,
       Call_n8n (JStr (u ''session'')) (JStr (u ''halo'')),
       Send (Crisis (JStr (u ''crisis'')) (JStr hardblock_msg) JNull), Send Ready],
      buffered\<lparr>buffer := []\<rparr>, Running)"
  by (simp add: session_eval example_defs clean_eval fallback_messages)

lemma crisis_fallback_flagged:
  assumes "get d ''type'' = JStr (u ''crisis'') \<or> truthy (get d ''crisis_flag'')"
    and "\<not> truthy tx"
  shows "crisis_fallback lib (JObj d) (get d ''type'') tx =
     (JStr (u ''crisis''),
      JStr (if hard_block_chosen lib d then hardblock_msg else standard_msg))"
  using assms
  unfolding crisis_fallback_def hard_block_chosen_def selected_subtype_def under_meta_def
    Let_def py_or_def
  by (cases "get d ''meta''") (auto split: json.splits)

lemma ci_equal_lower:
  assumes "list_all (\<lambda>c. c < 128) s" and "list_all (\<lambda>c. \<not> (65 \<le> c \<and> c \<le> 90)) t"
  shows "lower lib s = t \<longleftrightarrow> ci_equal s t"
proof -
  have "map (\<lambda>c. if 65 \<le> c \<and> c \<le> 90 then c + 32 else c) s = t \<longleftrightarrow> ci_equal s t"
    using assms(2)
  proof (induction s arbitrary: t)
    case Nil
    then show ?case by (auto simp: ci_equal_def)
  next
    case (Cons a s)
    show ?case
    proof (cases t)
      case Nil
      then show ?thesis by (simp add: ci_equal_def)
    next
      case (Cons b t')
      with Cons.prems have b: "\<not> (65 \<le> b \<and> b \<le> 90)" and t': "list_all (\<lambda>c. \<not> (65 \<le> c \<and> c \<le> 90)) t'"
        by simp_all
      from Cons.IH [OF t'] have "map (\<lambda>c. if 65 \<le> c \<and> c \<le> 90 then c + 32 else c) s = t' \<longleftrightarrow>
          list_all2 (\<lambda>x y. x = y \<or> (65 \<le> x \<and> x \<le> 90 \<and> y = x + 32) \<or> (65 \<le> y \<and> y \<le> 90 \<and> x = y + 32)) s t'"
        by (simp add: ci_equal_def)
      with b Cons show ?thesis by (auto simp: ci_equal_def)
    qed
  qed
  with assms(1) show ?thesis by (simp add: lower_def)
qed

section \<open>The claims about the realtime session\<close>

text \<open>
  C7: whenever a \<^verbatim>\<open>stop\<close> control frame is received while the utterance buffer is empty,
  the session emits exactly one error event with detail \<^verbatim>\<open>empty_audio\<close> and issues no
  transcoder, transcription, orchestration or synthesis call for that stop. The actions of the
  turn are that one event; the session is unchanged and keeps running.
\<close>

theorem stop_with_empty_buffer:
  assumes "stop_frame lib txt" and "buffer st = []"
  shows "step lib cfg w st (Text_frame txt) =
      ([Send (Error_event (Detail (u ''empty_audio'')) None)], st, Running)"
  using assms by (simp add: step_stop_frame handle_stop_def)

theorem stop_with_empty_buffer_witness:
  "stop_frame example_lib stop_text \<and> buffer new_session = [] \<and>
   step example_lib example_cfg (example_io neutral_text) new_session (Text_frame stop_text) =
      ([Send (Error_event (Detail (u ''empty_audio'')) None)], new_session, Running)"
proof -
  have 1: "stop_frame example_lib stop_text"
    by (simp add: stop_frame_def example_lib_def example_loads_def stop_text_def start_text_def
        get_def get_default_def u_def)
  have 2: "buffer new_session = []" by (simp add: new_session_def)
  from stop_with_empty_buffer [OF 1 2] 1 2 show ?thesis by simp
qed




text \<open>
  C5: for every successful non-crisis utterance (a turn that called the synthesis adapter and
  after which the session keeps running) the events are, in this order, \<^verbatim>\<open>audio_start\<close>, the
  binary chunks in the order in which the synthesis stream produced them, \<^verbatim>\<open>audio_end\<close>,
  \<^verbatim>\<open>ready\<close>, and nothing else.
\<close>

theorem successful_utterance_events:
  assumes "step lib cfg w st fr = (acts, st', Running)" and "list_ex is_tts_call acts"
  shows "\<exists>x mt ty. tts_stream w = Inr x \<and>
     events acts = Audio_start mt ty # map Binary (tts_chunks x) @ [Audio_end, Ready]"
proof (cases fr)
  case (Text_frame payload)
  with assms(1) have h: "handle_text lib cfg w st payload = (acts, st', Running)"
    by (simp add: step_def)
  from handle_text_cases [of lib cfg w st payload] h assms(2)
  have s: "handle_stop lib cfg w st = (acts, st', Running)"
    by (auto simp: escape_def)
  from handle_stop_outcome [of st lib cfg w] s assms(2)
  have "utterance_outcome w st (acts, st', Running)" by auto
  with assms(2) show ?thesis by (auto simp: utterance_outcome_def)
qed (use assms in \<open>auto simp: step_def\<close>)

theorem successful_utterance_events_witness:
  "step example_lib example_cfg (example_io neutral_text) buffered (Text_frame stop_text) =
     ([Call_convert_to_wav riff (JStr (u ''audio/wav'')) [],
       Call_stt riff JNull,
       Call_n8n (JStr (u ''session'')) (JStr (u ''halo'')),
       Call_tts (u ''Hai! Apa kabar.'') (JStr (u ''neutral'')),
       Send (Audio_start (u ''audio/mpeg'') (JStr (u ''neutral''))),
       Send (Binary [1, 2]), Send (Binary [3]), Send Audio_end, Send Ready],
      buffered\<lparr>buffer := []\<rparr>, Running) \<and>
   (\<exists>x mt ty. tts_stream (example_io neutral_text) = Inr x \<and>
      events [Call_convert_to_wav riff (JStr (u ''audio/wav'')) [],
       Call_stt riff JNull,
       Call_n8n (JStr (u ''session'')) (JStr (u ''halo'')),
       Call_tts (u ''Hai! Apa kabar.'') (JStr (u ''neutral'')),
       Send (Audio_start (u ''audio/mpeg'') (JStr (u ''neutral''))),
       Send (Binary [1, 2]), Send (Binary [3]), Send Audio_end, Send Ready] =
      Audio_start mt ty # map Binary (tts_chunks x) @ [Audio_end, Ready])"
proof -
  have c: "list_ex is_tts_call
     [Call_convert_to_wav riff (JStr (u ''audio/wav'')) [],
       Call_stt riff JNull,
       Call_n8n (JStr (u ''session'')) (JStr (u ''halo'')),
       Call_tts (u ''Hai! Apa kabar.'') (JStr (u ''neutral'')),
       Send (Audio_start (u ''audio/mpeg'') (JStr (u ''neutral''))),
       Send (Binary [1, 2]), Send (Binary [3]), Send Audio_end, Send Ready]"
    by simp
  from successful_utterance_events [OF neutral_step c] neutral_step show ?thesis by blast
qed

text \<open>
  C2, as stated: every utterance that completes, successfully or with a handled error
  (\<^verbatim>\<open>empty_audio\<close>, \<^verbatim>\<open>wav_conversion_failed\<close>, \<^verbatim>\<open>no_text\<close>), is followed by a
  \<^verbatim>\<open>ready\<close> event. It fails for a \<^verbatim>\<open>stop\<close> on the empty buffer of a new session: the only
  event is the error, and the session keeps running.
\<close>

theorem stop_without_ready_counterexample:
  "events (fst (step example_lib example_cfg (example_io neutral_text) new_session
      (Text_frame stop_text))) = [Error_event (Detail (u ''empty_audio'')) None] \<and>
   snd (snd (step example_lib example_cfg (example_io neutral_text) new_session
      (Text_frame stop_text))) = Running"
  by (simp add: session_eval example_defs)

text \<open>
  C2, amended: when a \<^verbatim>\<open>stop\<close> has been handled and the session keeps running, the events of
  the turn are one of five sequences. After a crisis text and after streamed audio the last
  event is \<^verbatim>\<open>ready\<close>; after a handled error (\<^verbatim>\<open>empty_audio\<close>,
  \<^verbatim>\<open>wav_conversion_failed\<close>, \<^verbatim>\<open>no_text\<close>) the error event is the last event and no
  \<^verbatim>\<open>ready\<close> is sent.
\<close>

theorem ready_after_utterance:
  assumes "stop_frame lib txt" and "step lib cfg w st (Text_frame txt) = (acts, st', Running)"
  shows "events acts = [Error_event (Detail (u ''empty_audio'')) None] \<or>
     (\<exists>e. events acts = [Error_event (Detail (u ''wav_conversion_failed'')) (Some e)]) \<or>
     (\<exists>t x. events acts = [Debug t x, Error_event (Detail (u ''no_text'')) None]) \<or>
     (\<exists>tx m. events acts = [Crisis (JStr (u ''crisis'')) tx m, Ready]) \<or>
     (\<exists>x mt ty. tts_stream w = Inr x \<and>
        events acts = Audio_start mt ty # map Binary (tts_chunks x) @ [Audio_end, Ready])"
proof -
  from assms have s: "handle_stop lib cfg w st = (acts, st', Running)"
    by (simp add: step_stop_frame)
  from handle_stop_outcome [of st lib cfg w] show ?thesis
  proof
    assume "buffer st = [] \<and> handle_stop lib cfg w st =
      ([Send (Error_event (Detail (u ''empty_audio'')) None)], st, Running)"
    with s have "acts = [Send (Error_event (Detail (u ''empty_audio'')) None)]" by simp
    then show ?thesis by simp
  next
    assume "buffer st \<noteq> [] \<and> utterance_outcome w st (handle_stop lib cfg w st)"
    with s have "utterance_outcome w st (acts, st', Running)" by simp
    then show ?thesis unfolding utterance_outcome_def by simp blast
  qed
qed

theorem ready_after_utterance_witness:
  "stop_frame example_lib stop_text \<and>
   (events (fst (step example_lib example_cfg (example_io crisis_text) buffered
       (Text_frame stop_text))) = [Error_event (Detail (u ''empty_audio'')) None] \<or>
     (\<exists>e. events (fst (step example_lib example_cfg (example_io crisis_text) buffered
       (Text_frame stop_text))) = [Error_event (Detail (u ''wav_conversion_failed'')) (Some e)]) \<or>
     (\<exists>t x. events (fst (step example_lib example_cfg (example_io crisis_text) buffered
       (Text_frame stop_text))) = [Debug t x, Error_event (Detail (u ''no_text'')) None]) \<or>
     (\<exists>tx m. events (fst (step example_lib example_cfg (example_io crisis_text) buffered
       (Text_frame stop_text))) = [Crisis (JStr (u ''crisis'')) tx m, Ready]) \<or>
     (\<exists>x mt ty. tts_stream (example_io crisis_text) = Inr x \<and>
        events (fst (step example_lib example_cfg (example_io crisis_text) buffered
       (Text_frame stop_text))) = Audio_start mt ty # map Binary (tts_chunks x) @ [Audio_end, Ready]))"
proof -
  have 1: "stop_frame example_lib stop_text"
    by (simp add: stop_frame_def example_lib_def example_loads_def stop_text_def start_text_def
        get_def get_default_def u_def)
  from ready_after_utterance [OF 1 crisis_step] 1 show ?thesis
    unfolding crisis_step by simp
qed

text \<open>
  C1: every error of the taxonomy raised while an utterance is processed (missing configuration,
  invalid input, transcoding failure, a non-success status or a malformed response of a provider,
  an unrecognized control frame) becomes an error event, and the session does not terminate. The
  handler does this for a failed conversion, which it catches per utterance, but not for the
  adapters it calls next. After a silent utterance the speech-to-text provider answers with an
  empty text, the transcription adapter raises \<^verbatim>\<open>HTTPException(400)\<close>, nothing catches it
  before the outer handler, and the session ends after the error event: the \<^verbatim>\<open>start\<close> frame
  that follows is never handled. With the same frames and a conversion that fails, the session
  reports the error, goes on and answers the \<^verbatim>\<open>start\<close> frame.
\<close>

theorem silent_utterance_ends_session:
  "run_session example_lib example_cfg buffered
     [(Text_frame stop_text, silent_io), (Text_frame start_text, silent_io)] =
     ([Call_convert_to_wav riff (JStr (u ''audio/wav'')) [],
       Call_stt riff JNull,
       Send (Error_event (Str_of (HTTPException 400 (u ''No transcript text produced''))) None)],
      buffered, Closed) \<and>
   run_session example_lib example_cfg (buffered\<lparr>input_mime := JStr (u ''audio/ogg'')\<rparr>)
     [(Text_frame stop_text, silent_io), (Text_frame start_text, silent_io)] =
     ([Call_convert_to_wav riff (JStr (u ''audio/ogg''))
         [Ffmpeg (u ''.wav'') (Some (u ''webm'')), Ffmpeg (u ''.wav'') (Some (u ''ogg'')),
          Ffmpeg (u ''.wav'') (Some (u ''mp3'')), Ffmpeg (u ''.wav'') None],
       Send (Error_event (Detail (u ''wav_conversion_failed'')) (Some (FfmpegFailed 1 []))),
       Send Ready],
      buffered\<lparr>buffer := [], input_mime := JStr (u ''audio/wav'')\<rparr>, Running)"
  by (simp add: session_eval example_defs clean_eval sniff_mime_def ext_for_mime_def MIME_EXT_def
      fmt_map_def)

text \<open>
  C4, as stated: whenever the orchestration result is flagged as crisis and has no text, the
  session selects the hard-block message exactly when the subtype (top level or under
  \<^verbatim>\<open>meta\<close>) is \<^verbatim>\<open>hard_block\<close> or \<^verbatim>\<open>hard-block\<close> up to case, or \<^verbatim>\<open>method_intent\<close> (top
  level or under \<^verbatim>\<open>meta\<close>) is true. It fails for a reply whose top-level subtype is
  \<^verbatim>\<open>soft\<close> and whose subtype under \<^verbatim>\<open>meta\<close> is \<^verbatim>\<open>hard_block\<close>: a true top-level subtype
  hides the one under \<^verbatim>\<open>meta\<close>, and the session sends the standard message.
\<close>

theorem shadowed_subtype_counterexample:
  "spec_hard_block shadowed_reply \<and> standard_msg \<noteq> hardblock_msg \<and>
   respond example_lib example_cfg (example_io crisis_text) buffered (JStr (u ''halo''))
       (JObj shadowed_reply) =
     ([Send (Crisis (JStr (u ''crisis'')) (JStr standard_msg)
         (JObj [(JStr (u ''subtype''), JStr (u ''hard_block''))])),
       Send Ready],
      buffered\<lparr>buffer := []\<rparr>, Running)"
proof -
  have 1: "spec_hard_block shadowed_reply"
    by (simp add: spec_hard_block_def names_hard_block_def under_meta_def shadowed_reply_def
        ci_equal_def get_def get_default_def u_def)
  have 2: "standard_msg \<noteq> hardblock_msg"
    by (simp add: standard_msg_def hardblock_msg_def u_def)
  have 3: "respond example_lib example_cfg (example_io crisis_text) buffered (JStr (u ''halo''))
       (JObj shadowed_reply) =
     ([Send (Crisis (JStr (u ''crisis'')) (JStr standard_msg)
         (JObj [(JStr (u ''subtype''), JStr (u ''hard_block''))])),
       Send Ready],
      buffered\<lparr>buffer := []\<rparr>, Running)"
    by (simp add: session_eval example_defs shadowed_reply_def fallback_messages)
  from 1 2 3 show ?thesis by simp
qed

text \<open>
  C4, amended: whenever the orchestration result is flagged as crisis (type \<^verbatim>\<open>crisis\<close> or a
  true \<^verbatim>\<open>crisis_flag\<close>) and has no text (neither \<^verbatim>\<open>text\<close> nor \<^verbatim>\<open>output\<close> is true), the
  session looks at one subtype, the top-level one when that is true and else the one under
  \<^verbatim>\<open>meta\<close>, and selects the hard-block message exactly when that subtype is true and
  \<^verbatim>\<open>str(subtype).lower()\<close> is \<^verbatim>\<open>hard_block\<close> or \<^verbatim>\<open>hard-block\<close>, or \<^verbatim>\<open>method_intent\<close> is
  true at the top level or under \<^verbatim>\<open>meta\<close>, and the standard message otherwise; for a subtype
  that is an ASCII string the test is equality with \<^verbatim>\<open>hard_block\<close> or \<^verbatim>\<open>hard-block\<close> up to
  the case of the letters. The type is \<^verbatim>\<open>crisis\<close>; the client receives one crisis event with
  that text and then \<^verbatim>\<open>ready\<close>; the synthesis adapter is not called.
\<close>

theorem crisis_fallback_reply:
  assumes "get d ''type'' = JStr (u ''crisis'') \<or> truthy (get d ''crisis_flag'')"
    and "\<not> truthy (get d ''text'')" and "\<not> truthy (get d ''output'')"
  shows "respond lib cfg w st transcript (JObj d) =
     ([Send (Crisis (JStr (u ''crisis''))
               (JStr (if hard_block_chosen lib d then hardblock_msg else standard_msg))
               (get d ''meta'')),
       Send Ready],
      st\<lparr>buffer := []\<rparr>, Running) \<and>
     (\<forall>s. selected_subtype d = JStr s \<and> list_all (\<lambda>c. c < 128) s \<longrightarrow>
        (hard_block_chosen lib d \<longleftrightarrow>
           names_hard_block (JStr s) \<or>
           truthy (get d ''method_intent'') \<or> truthy (under_meta d ''method_intent'')))"
proof -
  from assms(2,3) have t: "\<not> truthy (py_or (get d ''text'') (get d ''output''))"
    by (simp add: py_or_def)
  have f: "crisis_fallback lib (JObj d)
      (case JObj d of JObj d \<Rightarrow> get d ''type'' | _ \<Rightarrow> JNull)
      (case JObj d of JObj d \<Rightarrow> py_or (get d ''text'') (get d ''output'')
         | JStr s \<Rightarrow> JObj d | _ \<Rightarrow> JNull) =
     (JStr (u ''crisis''),
      JStr (if hard_block_chosen lib d then hardblock_msg else standard_msg))"
    using crisis_fallback_flagged [OF assms(1) t] by simp
  have 1: "respond lib cfg w st transcript (JObj d) =
     ([Send (Crisis (JStr (u ''crisis''))
               (JStr (if hard_block_chosen lib d then hardblock_msg else standard_msg))
               (get d ''meta'')),
       Send Ready],
      st\<lparr>buffer := []\<rparr>, Running)"
    unfolding respond_unfold [OF f] using fallback_messages by simp
  have 2: "hard_block_chosen lib d \<longleftrightarrow>
           names_hard_block (JStr s) \<or>
           truthy (get d ''method_intent'') \<or> truthy (under_meta d ''method_intent'')"
    if s: "selected_subtype d = JStr s" and a: "list_all (\<lambda>c. c < 128) s" for s
  proof -
    have l: "list_all (\<lambda>c. \<not> (65 \<le> c \<and> c \<le> 90)) (u ''hard_block'')"
      "list_all (\<lambda>c. \<not> (65 \<le> c \<and> c \<le> 90)) (u ''hard-block'')"
      by (simp_all add: u_def)
    have e: "s = [] \<Longrightarrow> \<not> ci_equal s (u ''hard_block'') \<and> \<not> ci_equal s (u ''hard-block'')"
      by (simp add: ci_equal_def u_def)
    show ?thesis
      unfolding hard_block_chosen_def s names_hard_block_def
      using ci_equal_lower [OF a l(1), of lib] ci_equal_lower [OF a l(2), of lib] e
      by auto
  qed
  from 1 2 show ?thesis by blast
qed

theorem crisis_fallback_reply_witness:
  "(get meta_reply ''type'' = JStr (u ''crisis'') \<or> truthy (get meta_reply ''crisis_flag'')) \<and>
   \<not> truthy (get meta_reply ''text'') \<and> \<not> truthy (get meta_reply ''output'') \<and>
   selected_subtype meta_reply = JStr (u ''Hard-Block'') \<and>
   list_all (\<lambda>c. c < 128) (u ''Hard-Block'') \<and> names_hard_block (JStr (u ''Hard-Block'')) \<and>
   respond example_lib example_cfg (example_io crisis_text) buffered (JStr (u ''halo''))
       (JObj meta_reply) =
     ([Send (Crisis (JStr (u ''crisis'')) (JStr hardblock_msg)
         (JObj [(JStr (u ''subtype''), JStr (u ''Hard-Block''))])),
       Send Ready],
      buffered\<lparr>buffer := []\<rparr>, Running)"
proof -
  have 1: "get meta_reply ''type'' = JStr (u ''crisis'') \<or> truthy (get meta_reply ''crisis_flag'')"
    by (simp add: meta_reply_def get_def get_default_def u_def)
  have 2: "\<not> truthy (get meta_reply ''text'')"
    by (simp add: meta_reply_def get_def get_default_def u_def)
  have 3: "\<not> truthy (get meta_reply ''output'')"
    by (simp add: meta_reply_def get_def get_default_def u_def)
  have 4: "selected_subtype meta_reply = JStr (u ''Hard-Block'')"
    by (simp add: selected_subtype_def meta_reply_def get_def get_default_def u_def)
  have 5: "list_all (\<lambda>c. c < 128) (u ''Hard-Block'')"
    by (simp add: u_def)
  have 6: "names_hard_block (JStr (u ''Hard-Block''))"
    by (simp add: names_hard_block_def ci_equal_def u_def)
  have 7: "get meta_reply ''meta'' = JObj [(JStr (u ''subtype''), JStr (u ''Hard-Block''))]"
    by (simp add: meta_reply_def get_def get_default_def u_def)
  from crisis_fallback_reply [OF 1 2 3, of example_lib example_cfg "example_io crisis_text"
      buffered "JStr (u ''halo'')"] 4 5 6
  have "hard_block_chosen example_lib meta_reply" by blast
  with crisis_fallback_reply [OF 1 2 3, of example_lib example_cfg "example_io crisis_text"
      buffered "JStr (u ''halo'')"] 1 2 3 4 5 6 7
  show ?thesis by simp
qed

section \<open>The claim about the transcoder\<close>

lemmas convert_eval = convert_to_wav_def sniff_mime_def ext_for_mime_def MIME_EXT_def fmt_map_def
  wav_types_def mime_base_def lower_def strip_def lstrip_def rstrip_def is_space_def u_def Let_def

text \<open>
  C6, as stated: given bytes that begin with the RIFF signature and the declared type
  \<^verbatim>\<open>audio/ogg\<close>, \<^verbatim>\<open>convert_to_wav\<close> returns the input unchanged without invoking the
  external tool. It fails: the fast path tests the declared type only, before sniffing. With a
  tool whose every run fails, the tool is invoked four times and the function raises.
\<close>

theorem riff_declared_ogg_counterexample:
  "convert_to_wav example_lib ffmpeg_fails riff (JStr (u ''audio/ogg'')) =
     (Inl (FfmpegFailed 1 []),
      [Ffmpeg (u ''.wav'') (Some (u ''webm'')), Ffmpeg (u ''.wav'') (Some (u ''ogg'')),
       Ffmpeg (u ''.wav'') (Some (u ''mp3'')), Ffmpeg (u ''.wav'') None])"
  by (simp add: convert_eval riff_def ffmpeg_fails_def)

text \<open>
  C6, amended: given bytes that begin with the RIFF signature and the declared type
  \<^verbatim>\<open>audio/ogg\<close>, sniffing overrides the declared type to \<^verbatim>\<open>audio/wav\<close> (the input file
  gets the suffix \<^verbatim>\<open>.wav\<close>), and the external tool is invoked with the forced formats
  \<^verbatim>\<open>webm\<close>, \<^verbatim>\<open>ogg\<close>, \<^verbatim>\<open>mp3\<close> and then with no forced format, in this order, until a
  run succeeds. The function returns the output of the first run that succeeds (it raises when
  that output is empty) after these calls and no other; when none of the four runs succeeds it
  raises with the exit code and the error output of the last one.
\<close>

theorem riff_declared_ogg_is_transcoded:
  "sniff_mime (0x52 # 0x49 # 0x46 # 0x46 # rest) = Some (u ''audio/wav'') \<and>
   convert_to_wav lib run (0x52 # 0x49 # 0x46 # 0x46 # rest) (JStr (u ''audio/ogg'')) =
     (if run_ok (run (Some (u ''webm''))) then
        (wav_of (run (Some (u ''webm''))), [Ffmpeg (u ''.wav'') (Some (u ''webm''))])
      else if run_ok (run (Some (u ''ogg''))) then
        (wav_of (run (Some (u ''ogg''))),
         [Ffmpeg (u ''.wav'') (Some (u ''webm'')), Ffmpeg (u ''.wav'') (Some (u ''ogg''))])
      else if run_ok (run (Some (u ''mp3''))) then
        (wav_of (run (Some (u ''mp3''))),
         [Ffmpeg (u ''.wav'') (Some (u ''webm'')), Ffmpeg (u ''.wav'') (Some (u ''ogg'')),
          Ffmpeg (u ''.wav'') (Some (u ''mp3''))])
      else
        (if run_ok (run None) then wav_of (run None)
         else Inl (FfmpegFailed (returncode (run None)) (stderr (run None))),
         [Ffmpeg (u ''.wav'') (Some (u ''webm'')), Ffmpeg (u ''.wav'') (Some (u ''ogg'')),
          Ffmpeg (u ''.wav'') (Some (u ''mp3'')), Ffmpeg (u ''.wav'') None]))"
proof -
  have 1: "sniff_mime (0x52 # 0x49 # 0x46 # 0x46 # rest) = Some (u ''audio/wav'')"
    by (simp add: sniff_mime_def)
  have 2: "convert_to_wav lib run (0x52 # 0x49 # 0x46 # 0x46 # rest) (JStr (u ''audio/ogg'')) =
     (if run_ok (run (Some (u ''webm''))) then
        (wav_of (run (Some (u ''webm''))), [Ffmpeg (u ''.wav'') (Some (u ''webm''))])
      else if run_ok (run (Some (u ''ogg''))) then
        (wav_of (run (Some (u ''ogg''))),
         [Ffmpeg (u ''.wav'') (Some (u ''webm'')), Ffmpeg (u ''.wav'') (Some (u ''ogg''))])
      else if run_ok (run (Some (u ''mp3''))) then
        (wav_of (run (Some (u ''mp3''))),
         [Ffmpeg (u ''.wav'') (Some (u ''webm'')), Ffmpeg (u ''.wav'') (Some (u ''ogg'')),
          Ffmpeg (u ''.wav'') (Some (u ''mp3''))])
      else
        (if run_ok (run None) then wav_of (run None)
         else Inl (FfmpegFailed (returncode (run None)) (stderr (run None))),
         [Ffmpeg (u ''.wav'') (Some (u ''webm'')), Ffmpeg (u ''.wav'') (Some (u ''ogg'')),
          Ffmpeg (u ''.wav'') (Some (u ''mp3'')), Ffmpeg (u ''.wav'') None]))"
    by (simp add: convert_eval run_ok_def wav_of_def)
  from 1 2 show ?thesis by simp
qed

theorem riff_declared_ogg_is_transcoded_witness:
  "\<not> run_ok (ffmpeg_ogg (Some (u ''webm''))) \<and> run_ok (ffmpeg_ogg (Some (u ''ogg''))) \<and>
   convert_to_wav example_lib ffmpeg_ogg (0x52 # 0x49 # 0x46 # 0x46 # [0x00]) (JStr (u ''audio/ogg'')) =
      (Inr [0x52, 0x49],
       [Ffmpeg (u ''.wav'') (Some (u ''webm'')), Ffmpeg (u ''.wav'') (Some (u ''ogg''))])"
  using riff_declared_ogg_is_transcoded [of "[0x00]" example_lib ffmpeg_ogg]
  by (simp add: ffmpeg_ogg_def run_ok_def wav_of_def u_def)

section \<open>The claim about the normalization of the orchestration reply\<close>







lemma get_empty_result_type: "get empty_result ''type'' = JNull"
  by (simp add: empty_result_def get_def get_default_def u_def)


















section \<open>The claims about the sanitizer\<close>

text \<open>Runs of whitespace between the other characters.\<close>

lemma all_space_simps [simp]:
  "all_space []" "all_space (w # ws) = (is_space w \<and> all_space ws)"
  by (simp_all add: all_space_def)

lemma run_take [simp]:
  "all_space ws \<Longrightarrow> \<not> is_space c \<Longrightarrow> takeWhile is_space (ws @ c # R) = ws"
  by (induction ws) auto

lemma run_drop [simp]:
  "all_space ws \<Longrightarrow> \<not> is_space c \<Longrightarrow> dropWhile is_space (ws @ c # R) = c # R"
  by (induction ws) auto

lemma run_take_all [simp]: "all_space ws \<Longrightarrow> takeWhile is_space ws = ws"
  by (induction ws) auto

lemma run_drop_all [simp]: "all_space ws \<Longrightarrow> dropWhile is_space ws = []"
  by (induction ws) auto

lemma keep_apply: "keep l ws r = ws"
  by (simp add: keep_def)

lemma imap_keep_left: "imap keep l items wsN = imap keep l' items wsN"
  by (cases items) (auto simp: keep_apply)

lemma decomposition:
  "\<exists>items wsN. valid_items items \<and> all_space wsN \<and> s = imap keep l items wsN"
proof (induction s)
  case Nil
  have "valid_items [] \<and> all_space [] \<and> [] = imap keep l [] []"
    by (simp add: keep_apply)
  then show ?case by blast
next
  case (Cons c s)
  then obtain items wsN where v: "valid_items items" "all_space wsN"
    and s: "s = imap keep l items wsN" by blast
  show ?case
  proof (cases "is_space c")
    case True
    show ?thesis
    proof (cases items)
      case Nil
      with v s True have "valid_items [] \<and> all_space (c # wsN) \<and>
          c # s = imap keep l [] (c # wsN)"
        by (simp add: keep_apply)
      then show ?thesis by blast
    next
      case (Cons it its)
      obtain ws d where it: "it = (ws, d)" by (cases it)
      with Cons v s True have "valid_items ((c # ws, d) # its) \<and> all_space wsN \<and>
          c # s = imap keep l ((c # ws, d) # its) wsN"
        by (simp add: keep_apply)
      then show ?thesis by blast
    qed
  next
    case False
    with v s imap_keep_left [of "Some c" items wsN l]
    have "valid_items (([], c) # items) \<and> all_space wsN \<and>
          c # s = imap keep l (([], c) # items) wsN"
      by (simp add: keep_apply)
    then show ?thesis by blast
  qed
qed

lemma re_sub_None:
  "m p (c # cs) = None \<Longrightarrow> re_sub m p (c # cs) = c # re_sub m (Some c) cs"
  by simp

lemma re_sub_Some:
  "m p (c # cs) = Some (rep, n) \<Longrightarrow> 0 < n \<Longrightarrow>
     re_sub m p (c # cs) = rep @ re_sub m (Some ((c # cs) ! (n - 1))) (drop (n - 1) cs)"
  by simp

lemma re_sub_Nil: "m p [] = None \<Longrightarrow> re_sub m p [] = []"
  by simp

lemma imap_keep_Cons:
  "imap keep l ((ws, c) # items) wsN = ws @ c # imap keep (Some c) items wsN"
  by (simp add: keep_apply)

lemma imap_keep_Nil: "imap keep l [] wsN = wsN"
  by (simp add: keep_apply)

lemma bridge:
  assumes base: "\<And>l p ws. okl l \<Longrightarrow> all_space ws \<Longrightarrow>
      re_sub m p (pre l @ ws) = pre l @ f l ws None"
    and step: "\<And>l p ws c R. okl l \<Longrightarrow> all_space ws \<Longrightarrow> \<not> is_space c \<Longrightarrow>
      \<exists>p'. re_sub m p (pre l @ ws @ c # R) = pre l @ f l ws (Some c) @ re_sub m p' (c # R)"
  shows "valid_items items \<Longrightarrow> all_space wsN \<Longrightarrow> okl l \<Longrightarrow>
     re_sub m p (pre l @ imap keep l items wsN) = pre l @ imap f l items wsN"
proof (induction items arbitrary: l p)
  case Nil
  then show ?case using base [of l wsN p] by (simp add: keep_apply del: re_sub.simps)
next
  case (Cons it items)
  obtain ws c where it: "it = (ws, c)" by (cases it)
  from Cons.prems it have v: "all_space ws" "\<not> is_space c" "valid_items items"
    by simp_all
  from step [OF Cons.prems(3) v(1,2), of p "imap keep (Some c) items wsN"]
  obtain p' where s: "re_sub m p (pre l @ ws @ c # imap keep (Some c) items wsN) =
      pre l @ f l ws (Some c) @ re_sub m p' (c # imap keep (Some c) items wsN)"
    by blast
  from Cons.IH [OF v(3) Cons.prems(2), of "Some c" p'] v(2)
  have i: "re_sub m p' (c # imap keep (Some c) items wsN) = c # imap f (Some c) items wsN"
    by (simp del: re_sub.simps imap.simps)
  have k: "imap keep l (it # items) wsN = ws @ c # imap keep (Some c) items wsN"
    unfolding it by (rule imap_keep_Cons)
  have j: "imap f l (it # items) wsN = f l ws (Some c) @ c # imap f (Some c) items wsN"
    unfolding it by simp
  show ?case unfolding k j s i ..
qed

text \<open>Whitespace before a closing character (steps 7a and 7c).\<close>

lemma m_space_punct_before: "m_space_punct = m_space_before is_punct"
  by (intro ext) (simp add: m_space_punct_def m_space_before_def)

lemma m_space_paren_before: "m_space_paren = m_space_before (\<lambda>q. q = 41)"
proof (intro ext)
  fix p s
  show "m_space_paren p s = m_space_before (\<lambda>q. q = 41) p s"
    by (cases "dropWhile is_space s")
      (auto simp: m_space_paren_def m_space_before_def Let_def simp del: dropWhile_eq_Nil_conv)
qed

lemma before_miss_nonspace: "\<not> is_space c \<Longrightarrow> m_space_before Q p (c # R) = None"
  by (simp add: m_space_before_def)

lemma before_miss_tail: "all_space ws \<Longrightarrow> m_space_before Q p ws = None"
  by (simp add: m_space_before_def)

lemma before_miss_run:
  "all_space ws \<Longrightarrow> \<not> is_space c \<Longrightarrow> \<not> Q c \<Longrightarrow> m_space_before Q p (ws @ c # R) = None"
  by (simp add: m_space_before_def)

lemma before_hit:
  "all_space ws \<Longrightarrow> ws \<noteq> [] \<Longrightarrow> \<not> is_space c \<Longrightarrow> Q c \<Longrightarrow>
     m_space_before Q p (ws @ c # R) = Some ([c], length ws + 1)"
  by (simp add: m_space_before_def)

lemma before_tail:
  "all_space ws \<Longrightarrow> re_sub (m_space_before Q) p ws = ws"
proof (induction ws arbitrary: p)
  case Nil
  then show ?case by (simp add: m_space_before_def)
next
  case (Cons w ws)
  have "m_space_before Q p (w # ws) = None"
    using Cons.prems by (rule before_miss_tail)
  then have "re_sub (m_space_before Q) p (w # ws) = w # re_sub (m_space_before Q) (Some w) ws"
    by (rule re_sub_None)
  with Cons show ?case by (simp del: re_sub.simps)
qed

lemma before_nonspace:
  "\<not> is_space c \<Longrightarrow> re_sub (m_space_before Q) p (c # R) = c # re_sub (m_space_before Q) (Some c) R"
  by (rule re_sub_None) (rule before_miss_nonspace)

lemma before_keep:
  "all_space ws \<Longrightarrow> \<not> is_space c \<Longrightarrow> \<not> Q c \<Longrightarrow>
     re_sub (m_space_before Q) p (ws @ c # R) = ws @ c # re_sub (m_space_before Q) (Some c) R"
proof (induction ws arbitrary: p)
  case Nil
  then show ?case by (simp add: before_nonspace del: re_sub.simps)
next
  case (Cons w ws)
  have "m_space_before Q p ((w # ws) @ c # R) = None"
    using Cons.prems by (rule before_miss_run)
  then have "m_space_before Q p (w # ws @ c # R) = None" by simp
  then have "re_sub (m_space_before Q) p (w # ws @ c # R) =
      w # re_sub (m_space_before Q) (Some w) (ws @ c # R)"
    by (rule re_sub_None)
  with Cons show ?case by (simp del: re_sub.simps)
qed

lemma before_delete:
  assumes "all_space ws" "ws \<noteq> []" "\<not> is_space c" "Q c"
  shows "re_sub (m_space_before Q) p (ws @ c # R) = c # re_sub (m_space_before Q) (Some c) R"
proof -
  from assms(2) obtain w ws' where ws: "ws = w # ws'" by (cases ws) auto
  have "m_space_before Q p (ws @ c # R) = Some ([c], length ws + 1)"
    using assms by (rule before_hit)
  with ws have m: "m_space_before Q p (w # ws' @ c # R) = Some ([c], length ws' + 2)" by simp
  have "re_sub (m_space_before Q) p (w # ws' @ c # R) =
     [c] @ re_sub (m_space_before Q) (Some ((w # ws' @ c # R) ! (length ws' + 2 - 1)))
       (drop (length ws' + 2 - 1) (ws' @ c # R))"
    using m by (rule re_sub_Some) simp
  with ws show ?thesis by (simp add: nth_append del: re_sub.simps)
qed

lemma before_run:
  assumes "all_space ws" "\<not> is_space c"
  shows "re_sub (m_space_before Q) p (ws @ c # R) =
     f_before Q l ws (Some c) @ c # re_sub (m_space_before Q) (Some c) R"
proof (cases "Q c")
  case True
  show ?thesis
  proof (cases "ws = []")
    case True
    then show ?thesis using assms by (simp add: f_before_def before_nonspace del: re_sub.simps)
  next
    case False
    have "re_sub (m_space_before Q) p (ws @ c # R) = c # re_sub (m_space_before Q) (Some c) R"
      using assms(1) False assms(2) \<open>Q c\<close> by (rule before_delete)
    with \<open>Q c\<close> show ?thesis by (simp add: f_before_def del: re_sub.simps)
  qed
next
  case False
  have "re_sub (m_space_before Q) p (ws @ c # R) = ws @ c # re_sub (m_space_before Q) (Some c) R"
    using assms False by (rule before_keep)
  with False show ?thesis by (simp add: f_before_def del: re_sub.simps)
qed

lemma before_bridge:
  assumes "valid_items items" "all_space wsN"
  shows "re_sub (m_space_before Q) p (imap keep None items wsN) = imap (f_before Q) None items wsN"
proof -
  have base: "re_sub (m_space_before Q) p (pre l @ ws) = pre l @ f_before Q l ws None"
    if "okl l" "all_space ws" for l p ws
    using that
    by (cases l) (simp_all add: before_tail before_nonspace f_before_def del: re_sub.simps)
  have step: "\<exists>p'. re_sub (m_space_before Q) p (pre l @ ws @ c # R) =
      pre l @ f_before Q l ws (Some c) @ re_sub (m_space_before Q) p' (c # R)"
    if "okl l" "all_space ws" "\<not> is_space c" for l p ws c R
  proof -
    have a: "re_sub (m_space_before Q) q (ws @ c # R) =
        f_before Q l ws (Some c) @ re_sub (m_space_before Q) None (c # R)" for q
      using before_run [of ws c Q q R l] that(2,3)
      by (simp add: before_nonspace del: re_sub.simps)
    show ?thesis
    proof (cases l)
      case None
      with a [of p] show ?thesis by (auto simp del: re_sub.simps)
    next
      case (Some c0)
      with that(1) a [of "Some c0"] show ?thesis
        by (auto simp: before_nonspace simp del: re_sub.simps)
    qed
  qed
  have o: "okl None" by simp
  have "re_sub (m_space_before Q) p (pre None @ imap keep None items wsN) =
      pre None @ imap (f_before Q) None items wsN"
    using base step assms o by (rule bridge)
  then show ?thesis by (simp del: re_sub.simps)
qed

lemma re_sub_indep:
  assumes "\<And>p p' s. m p s = m p' s"
  shows "re_sub m p s = re_sub m p' s"
proof (cases s)
  case Nil
  then show ?thesis using assms [of p "[]" p'] by simp
next
  case (Cons c cs)
  then show ?thesis using assms [of p "c # cs" p'] by simp
qed

text \<open>Whitespace after an opening parenthesis (step 7b).\<close>

lemma paren_indep: "re_sub m_paren_space p s = re_sub m_paren_space p' s"
  by (rule re_sub_indep) (simp add: m_paren_space_def)

lemma paren_miss: "c \<noteq> 40 \<Longrightarrow> m_paren_space p (c # R) = None"
  by (simp add: m_paren_space_def)

lemma paren_miss_nonspace: "\<not> is_space c \<Longrightarrow> m_paren_space p (40 # c # R) = None"
  by (simp add: m_paren_space_def)

lemma paren_miss_end: "m_paren_space p [40] = None"
  by (simp add: m_paren_space_def)

lemma space_not_paren: "is_space w \<Longrightarrow> w \<noteq> 40"
  by (auto simp: is_space_def)

lemma paren_copy:
  "all_space ws \<Longrightarrow> re_sub m_paren_space p (ws @ X) = ws @ re_sub m_paren_space p X"
proof (induction ws arbitrary: p)
  case Nil
  then show ?case by simp
next
  case (Cons w ws)
  then have "w \<noteq> 40" by (simp add: space_not_paren)
  then have "m_paren_space p (w # ws @ X) = None" by (rule paren_miss)
  then have "re_sub m_paren_space p (w # ws @ X) = w # re_sub m_paren_space (Some w) (ws @ X)"
    by (rule re_sub_None)
  with Cons paren_indep [of "Some w" X p] show ?case by (simp del: re_sub.simps)
qed

lemma paren_hit:
  assumes "all_space ws" "ws \<noteq> []" "X = [] \<or> \<not> is_space (hd X)"
  shows "re_sub m_paren_space p (40 # ws @ X) = 40 # re_sub m_paren_space p X"
proof -
  have t: "takeWhile is_space (ws @ X) = ws"
    using assms(1,3) by (cases X) simp_all
  then have m: "m_paren_space p (40 # ws @ X) = Some ([40], 1 + length ws)"
    using assms(2) by (simp add: m_paren_space_def)
  have "re_sub m_paren_space p (40 # ws @ X) =
      [40] @ re_sub m_paren_space (Some ((40 # ws @ X) ! (1 + length ws - 1)))
        (drop (1 + length ws - 1) (ws @ X))"
    using m by (rule re_sub_Some) simp
  then show ?thesis using paren_indep [of _ X p] by (simp del: re_sub.simps)
qed

lemma paren_nonspace_step:
  assumes "\<not> is_space c0" "all_space ws" "X = [] \<or> \<not> is_space (hd X)"
  shows "re_sub m_paren_space p (c0 # ws @ X) =
     c0 # f_after (Some c0) ws r @ re_sub m_paren_space p X"
proof (cases "c0 = 40 \<and> ws \<noteq> []")
  case True
  with paren_hit [OF assms(2) _ assms(3), of p] show ?thesis
    by (simp add: f_after_def del: re_sub.simps)
next
  case False
  have "m_paren_space p (c0 # ws @ X) = None"
  proof (cases "c0 = 40")
    case True
    with False have "ws = []" by simp
    with True assms(3) show ?thesis by (cases X) (simp_all add: m_paren_space_def)
  next
    case False
    then show ?thesis by (rule paren_miss)
  qed
  then have "re_sub m_paren_space p (c0 # ws @ X) =
      c0 # re_sub m_paren_space (Some c0) (ws @ X)"
    by (rule re_sub_None)
  with False paren_copy [OF assms(2), of "Some c0" X] paren_indep [of "Some c0" X p]
  show ?thesis by (auto simp: f_after_def simp del: re_sub.simps)
qed

lemma paren_Nil: "re_sub m_paren_space p [] = []"
  by (simp add: m_paren_space_def)

lemma paren_bridge:
  assumes "valid_items items" "all_space wsN"
  shows "re_sub m_paren_space p (imap keep None items wsN) = imap f_after None items wsN"
proof -
  have base: "re_sub m_paren_space p (pre l @ ws) = pre l @ f_after l ws None"
    if "okl l" "all_space ws" for l p ws
  proof (cases l)
    case None
    with paren_copy [OF that(2), of p "[]"] show ?thesis
      by (simp add: f_after_def paren_Nil del: re_sub.simps)
  next
    case (Some c0)
    with that paren_nonspace_step [of c0 ws "[]" p None] show ?thesis
      by (simp add: paren_Nil del: re_sub.simps)
  qed
  have step: "\<exists>p'. re_sub m_paren_space p (pre l @ ws @ c # R) =
      pre l @ f_after l ws (Some c) @ re_sub m_paren_space p' (c # R)"
    if "okl l" "all_space ws" "\<not> is_space c" for l p ws c R
  proof (cases l)
    case None
    with paren_copy [OF that(2), of p "c # R"] show ?thesis
      by (auto simp: f_after_def simp del: re_sub.simps)
  next
    case (Some c0)
    with that paren_nonspace_step [of c0 ws "c # R" p "Some c"] show ?thesis
      by (auto simp del: re_sub.simps)
  qed
  have o: "okl None" by simp
  have "re_sub m_paren_space p (pre None @ imap keep None items wsN) =
      pre None @ imap f_after None items wsN"
    using base step assms o by (rule bridge)
  then show ?thesis by (simp del: re_sub.simps)
qed

text \<open>Runs of two or more whitespace characters (step 8).\<close>

lemma spaces_indep: "re_sub m_spaces p s = re_sub m_spaces p' s"
  by (rule re_sub_indep) (simp add: m_spaces_def)

lemma spaces_Nil: "re_sub m_spaces p [] = []"
  by (simp add: m_spaces_def)

lemma spaces_nonspace:
  "\<not> is_space c \<Longrightarrow> re_sub m_spaces p (c # R) = c # re_sub m_spaces p R"
proof -
  assume "\<not> is_space c"
  then have "m_spaces p (c # R) = None" by (simp add: m_spaces_def)
  then have "re_sub m_spaces p (c # R) = c # re_sub m_spaces (Some c) R" by (rule re_sub_None)
  with spaces_indep [of "Some c" R p] show ?thesis by simp
qed

lemma spaces_run:
  assumes "all_space ws" "X = [] \<or> \<not> is_space (hd X)"
  shows "re_sub m_spaces p (ws @ X) = f_collapse l ws r @ re_sub m_spaces p X"
proof -
  have t: "takeWhile is_space (ws @ X) = ws"
    using assms by (cases X) simp_all
  show ?thesis
  proof (cases "2 \<le> length ws")
    case True
    then obtain w ws' where ws: "ws = w # ws'" by (cases ws) simp_all
    from t True have m: "m_spaces p (w # ws' @ X) = Some ([32], length ws)"
      unfolding ws by (simp add: m_spaces_def)
    have "re_sub m_spaces p (w # ws' @ X) =
        [32] @ re_sub m_spaces (Some ((w # ws' @ X) ! (length ws - 1)))
          (drop (length ws - 1) (ws' @ X))"
      using m by (rule re_sub_Some) (use True in linarith)
    with True ws spaces_indep [of _ X p] show ?thesis
      by (simp add: f_collapse_def del: re_sub.simps)
  next
    case False
    show ?thesis
    proof (cases ws)
      case Nil
      then show ?thesis by (simp add: f_collapse_def del: re_sub.simps)
    next
      case (Cons w ws')
      with False have ws: "ws = [w]" by (cases ws') auto
      from t ws have "m_spaces p (w # X) = None" by (simp add: m_spaces_def)
      then have "re_sub m_spaces p (w # X) = w # re_sub m_spaces (Some w) X"
        by (rule re_sub_None)
      with ws spaces_indep [of "Some w" X p] show ?thesis
        by (simp add: f_collapse_def del: re_sub.simps)
    qed
  qed
qed

lemma spaces_bridge:
  assumes "valid_items items" "all_space wsN"
  shows "re_sub m_spaces p (imap keep None items wsN) = imap f_collapse None items wsN"
proof -
  have base: "re_sub m_spaces p (pre l @ ws) = pre l @ f_collapse l ws None"
    if "okl l" "all_space ws" for l p ws
    using that spaces_run [of ws "[]" p l None]
    by (cases l) (simp_all add: spaces_nonspace spaces_Nil del: re_sub.simps)
  have step: "\<exists>p'. re_sub m_spaces p (pre l @ ws @ c # R) =
      pre l @ f_collapse l ws (Some c) @ re_sub m_spaces p' (c # R)"
    if "okl l" "all_space ws" "\<not> is_space c" for l p ws c R
    using that spaces_run [of ws "c # R" p l "Some c"]
    by (cases l) (auto simp: spaces_nonspace simp del: re_sub.simps)
  have o: "okl None" by simp
  have "re_sub m_spaces p (pre None @ imap keep None items wsN) =
      pre None @ imap f_collapse None items wsN"
    using base step assms o by (rule bridge)
  then show ?thesis by (simp del: re_sub.simps)
qed

text \<open>Composition of run transformations.\<close>

lemma ilast_itrans: "ilast l (itrans f l items) = ilast l items"
  by (induction f l items rule: itrans.induct) auto

lemma imap_itrans:
  "imap g l (itrans f l items) (f (ilast l items) wsN None) = imap (cmp g f) l items wsN"
  by (induction f l items rule: itrans.induct) (auto simp: cmp_def)

lemma valid_itrans: "sp f \<Longrightarrow> valid_items items \<Longrightarrow> valid_items (itrans f l items)"
  by (induction f l items rule: itrans.induct) (auto simp: sp_def)

lemma cmp_keep: "cmp keep f = f"
  by (intro ext) (simp add: cmp_def keep_apply)

lemma sp_cmp: "sp g \<Longrightarrow> sp f \<Longrightarrow> sp (cmp g f)"
  by (simp add: sp_def cmp_def)

lemma apply_bridge:
  assumes b: "\<And>items wsN p. valid_items items \<Longrightarrow> all_space wsN \<Longrightarrow>
      re_sub m p (imap keep None items wsN) = imap g None items wsN"
    and "sp f" "valid_items items" "all_space wsN"
  shows "re_sub m p (imap f None items wsN) = imap (cmp g f) None items wsN"
proof -
  have 1: "imap f None items wsN =
      imap keep None (itrans f None items) (f (ilast None items) wsN None)"
    using imap_itrans [of keep None f items wsN] by (simp add: cmp_keep)
  have 2: "valid_items (itrans f None items)"
    using assms(2,3) by (rule valid_itrans)
  have 3: "all_space (f (ilast None items) wsN None)"
    using assms(2,4) by (simp add: sp_def)
  show ?thesis
    unfolding 1 b [OF 2 3] by (rule imap_itrans)
qed

lemma sp_before: "sp (f_before Q)"
  by (auto simp: sp_def f_before_def split: option.splits)

lemma sp_after: "sp f_after"
  by (simp add: sp_def f_after_def)

lemma sp_collapse: "sp f_collapse"
  by (simp add: sp_def f_collapse_def is_space_def)

lemma sp_keep: "sp keep"
  by (simp add: sp_def keep_apply)

lemma sp_tidy: "sp f_tidy"
  unfolding f_tidy_def by (intro sp_cmp sp_before sp_after sp_collapse)

lemma tidy_imap:
  assumes "sp f" "valid_items items" "all_space wsN"
  shows "tidy (imap f None items wsN) = imap (cmp f_tidy f) None items wsN"
proof -
  have 1: "re_sub m_space_punct None (imap f None items wsN) =
      imap (cmp (f_before is_punct) f) None items wsN"
    unfolding m_space_punct_before
    by (rule apply_bridge [OF before_bridge assms])
  have 2: "re_sub m_paren_space None (imap (cmp (f_before is_punct) f) None items wsN) =
      imap (cmp f_after (cmp (f_before is_punct) f)) None items wsN"
    by (rule apply_bridge [OF paren_bridge sp_cmp [OF sp_before assms(1)] assms(2,3)])
  have 3: "re_sub m_space_paren None
        (imap (cmp f_after (cmp (f_before is_punct) f)) None items wsN) =
      imap (cmp (f_before (\<lambda>q. q = 41)) (cmp f_after (cmp (f_before is_punct) f))) None items wsN"
    unfolding m_space_paren_before
    by (rule apply_bridge [OF before_bridge
          sp_cmp [OF sp_after sp_cmp [OF sp_before assms(1)]] assms(2,3)])
  have 4: "re_sub m_spaces None
        (imap (cmp (f_before (\<lambda>q. q = 41)) (cmp f_after (cmp (f_before is_punct) f)))
           None items wsN) =
      imap (cmp f_collapse
        (cmp (f_before (\<lambda>q. q = 41)) (cmp f_after (cmp (f_before is_punct) f)))) None items wsN"
    by (rule apply_bridge [OF spaces_bridge
          sp_cmp [OF sp_before sp_cmp [OF sp_after sp_cmp [OF sp_before assms(1)]]] assms(2,3)])
  have "cmp f_collapse
        (cmp (f_before (\<lambda>q. q = 41)) (cmp f_after (cmp (f_before is_punct) f))) = cmp f_tidy f"
    by (intro ext) (simp add: cmp_def f_tidy_def)
  then show ?thesis unfolding tidy_def 1 2 3 4 by simp
qed

lemma f_tidy_idem: "cmp f_tidy f_tidy = f_tidy"
  by (intro ext)
    (auto simp: cmp_def f_tidy_def f_collapse_def f_before_def f_after_def split: option.splits)

lemma tidy_idem: "tidy (tidy s) = tidy s"
proof -
  from decomposition [of s None] obtain items wsN where
    v: "valid_items items" "all_space wsN" and s: "s = imap keep None items wsN"
    by blast
  have 1: "tidy s = imap f_tidy None items wsN"
    unfolding s using tidy_imap [OF sp_keep v]
    by (metis cmp_def keep_apply ext)
  have 2: "tidy (imap f_tidy None items wsN) = imap (cmp f_tidy f_tidy) None items wsN"
    by (rule tidy_imap [OF sp_tidy v])
  show ?thesis unfolding 1 2 f_tidy_idem ..
qed

text \<open>What the whitespace steps keep of their input.\<close>

lemma re_sub_set:
  assumes "\<And>p s rep n. m p s = Some (rep, n) \<Longrightarrow> set rep \<subseteq> set s \<union> {32}"
  shows "set (re_sub m p s) \<subseteq> set s \<union> {32}"
proof (induction "length s" arbitrary: s p rule: less_induct)
  case less
  show ?case
  proof (cases s)
    case Nil
    then show ?thesis using assms [of p "[]"] by (cases "m p []") auto
  next
    case (Cons c cs)
    show ?thesis
    proof (cases "m p (c # cs)")
      case None
      with Cons less [of cs "Some c"] show ?thesis by auto
    next
      case (Some a)
      obtain rep n where a: "a = (rep, n)" by (cases a)
      from assms [of p "c # cs" rep n] Some a have r: "set rep \<subseteq> set (c # cs) \<union> {32}" by simp
      have d: "set (drop (n - 1) cs) \<subseteq> set cs" by (rule set_drop_subset)
      have "length (drop (n - 1) cs) < length s" using Cons by simp
      from less [OF this, of "Some ((c # cs) ! (n - 1))"] d
      have 1: "set (re_sub m (Some ((c # cs) ! (n - 1))) (drop (n - 1) cs)) \<subseteq> set cs \<union> {32}"
        by blast
      from less [of cs "Some c"] Cons have 2: "set (re_sub m (Some c) cs) \<subseteq> set cs \<union> {32}"
        by simp
      from Some a r 1 2 Cons show ?thesis by auto
    qed
  qed
qed

lemma tidy_set: "set (tidy s) \<subseteq> set s \<union> {32}"
proof -
  have 1: "set (re_sub m_space_punct p s) \<subseteq> set s \<union> {32}" for p s
    by (rule re_sub_set)
      (auto simp: m_space_punct_def Let_def split: list.splits if_splits dest: set_dropWhileD
        simp del: dropWhile_eq_Nil_conv, metis list.set_intros(1) set_dropWhileD)
  have 2: "set (re_sub m_paren_space p s) \<subseteq> set s \<union> {32}" for p s
    by (rule re_sub_set) (auto simp: m_paren_space_def Let_def split: list.splits if_splits)
  have 3: "set (re_sub m_space_paren p s) \<subseteq> set s \<union> {32}" for p s
    by (rule re_sub_set)
      (auto simp: m_space_paren_def Let_def split: list.splits if_splits
        simp del: dropWhile_eq_Nil_conv, metis list.set_intros(1) set_dropWhileD)
  have 4: "set (re_sub m_spaces p s) \<subseteq> set s \<union> {32}" for p s
    by (rule re_sub_set) (auto simp: m_spaces_def Let_def split: if_splits)
  show ?thesis
    unfolding tidy_def using 1 2 3 4 by blast
qed

lemma tidy_Nil: "tidy [] = []"
  by (simp add: tidy_def m_space_punct_def m_paren_space_def m_space_paren_def m_spaces_def)

lemma tidy_hd:
  assumes "\<not> is_space c"
  shows "\<exists>r. tidy (c # cs) = c # r"
proof -
  from decomposition [of cs "Some c"] obtain items wsN where
    v: "valid_items items" "all_space wsN" and s: "cs = imap keep (Some c) items wsN"
    by blast
  have vv: "valid_items (([], c) # items)" using v assms by simp
  have "c # cs = imap keep None (([], c) # items) wsN"
    unfolding s by (simp add: keep_apply)
  then have "tidy (c # cs) = imap (cmp f_tidy keep) None (([], c) # items) wsN"
    using tidy_imap [OF sp_keep vv v(2)] by simp
  then show ?thesis
    by (simp add: cmp_def keep_apply f_tidy_def f_collapse_def f_before_def f_after_def)
qed

lemma tidy_last:
  assumes "s \<noteq> []" "\<not> is_space (last s)"
  shows "tidy s \<noteq> [] \<and> last (tidy s) = last s"
proof -
  have 1: "re_sub m_space_punct None s \<noteq> [] \<and> last (re_sub m_space_punct None s) = last s"
    using re_sub_last [of m_space_punct s None] m_space_punct_last assms by blast
  have 2: "re_sub m_paren_space None (re_sub m_space_punct None s) \<noteq> [] \<and>
      last (re_sub m_paren_space None (re_sub m_space_punct None s)) = last s"
    using re_sub_last [of m_paren_space "re_sub m_space_punct None s" None]
      m_paren_space_last 1 assms(2) by (metis (no_types, lifting))
  have 3: "re_sub m_space_paren None (re_sub m_paren_space None (re_sub m_space_punct None s)) \<noteq> [] \<and>
      last (re_sub m_space_paren None (re_sub m_paren_space None (re_sub m_space_punct None s))) = last s"
    using re_sub_last [of m_space_paren "re_sub m_paren_space None (re_sub m_space_punct None s)" None]
      m_space_paren_last 2 assms(2) by (metis (no_types, lifting))
  show ?thesis
    unfolding tidy_def
    using re_sub_last [of m_spaces "re_sub m_space_paren None (re_sub m_paren_space None (re_sub m_space_punct None s))" None]
      m_spaces_last 3 assms(2) by (metis (no_types, lifting))
qed

text \<open>Text without markup passes the first five steps unchanged.\<close>

lemma re_sub_id:
  assumes "\<And>p t. set t \<subseteq> set s \<Longrightarrow> m p t = None"
  shows "re_sub m p s = s"
  using assms
proof (induction s arbitrary: p)
  case Nil
  then show ?case by simp
next
  case (Cons c cs)
  have 1: "m p (c # cs) = None" using Cons.prems by simp
  have 2: "re_sub m (Some c) cs = cs"
  proof (rule Cons.IH)
    fix q t
    assume "set t \<subseteq> set cs"
    then have "set t \<subseteq> set (c # cs)" by auto
    then show "m q t = None" by (rule Cons.prems)
  qed
  from 1 2 show ?case by simp
qed

lemma m_type_tag_None: "91 \<notin> set t \<Longrightarrow> m_type_tag p t = None"
  by (cases t) (auto simp: m_type_tag_def match_type_tag_def u_def)

lemma m_md_link_None: "91 \<notin> set t \<Longrightarrow> m_md_link p t = None"
  by (cases t) (auto simp: m_md_link_def)

lemma m_emphasis_None: "42 \<notin> set t \<Longrightarrow> 95 \<notin> set t \<Longrightarrow> m_emphasis W p t = None"
  by (cases t) (auto simp: m_emphasis_def Let_def)

lemma m_heading_None:
  assumes "35 \<notin> set t"
  shows "m_heading p t = None"
proof -
  have "takeWhile (\<lambda>x. x = 35) (dropWhile is_space t) = []"
  proof (cases "dropWhile is_space t")
    case Nil
    then show ?thesis by (simp only: takeWhile.simps)
  next
    case (Cons a as)
    then have "a \<in> set (dropWhile is_space t)" by simp
    then have "a \<in> set t" by (rule set_dropWhileD)
    with assms have "a \<noteq> 35" by auto
    with Cons show ?thesis by simp
  qed
  then show ?thesis by (simp add: m_heading_def Let_def)
qed

lemma replace_id:
  assumes "e \<in> set old" "e \<notin> set s"
  shows "replace old new s = s"
  using assms(2)
proof (induction s)
  case Nil
  then show ?case by simp
next
  case (Cons c cs)
  have "take (length old) (c # cs) \<noteq> old"
  proof
    assume "take (length old) (c # cs) = old"
    then have "set old \<subseteq> set (c # cs)" by (metis set_take_subset)
    with assms(1) Cons.prems show False by auto
  qed
  with Cons show ?case by simp
qed

lemma replace_set: "set (replace old new s) \<subseteq> set s \<union> set new"
proof (induction old new s rule: replace.induct)
  case (1 old new)
  then show ?case by simp
next
  case (2 old new c cs)
  show ?case
  proof (cases "old \<noteq> [] \<and> take (length old) (c # cs) = old")
    case True
    have "set (drop (length old - 1) cs) \<subseteq> set cs" by (rule set_drop_subset)
    with 2(1) [OF True] True show ?thesis by auto
  next
    case False
    with 2(2) [OF False] show ?thesis by auto
  qed
qed

lemma replace_backtick: "96 \<notin> set (replace [96] [] s)"
  by (induction s) auto

lemma split_on_id: "d \<notin> set s \<Longrightarrow> split_on d s = [s]"
  by (induction s) auto

lemma split_on_set: "l \<in> set (split_on d s) \<Longrightarrow> set l \<subseteq> set s \<and> d \<notin> set l"
proof (induction s arbitrary: l)
  case Nil
  then show ?case by simp
next
  case (Cons c cs)
  show ?case
  proof (cases "c = d")
    case True
    with Cons.prems have "l = [] \<or> l \<in> set (split_on d cs)" by simp
    with Cons.IH show ?thesis by auto
  next
    case False
    show ?thesis
    proof (cases "split_on d cs")
      case Nil
      with Cons.prems False show ?thesis by simp
    next
      case (Cons k ks)
      with Cons.prems False have "l = c # k \<or> l \<in> set ks" by simp
      moreover have "set k \<subseteq> set cs \<and> d \<notin> set k"
        using Cons.IH [of k] Cons by simp
      moreover have "l \<in> set ks \<Longrightarrow> set l \<subseteq> set cs \<and> d \<notin> set l"
        using Cons.IH [of l] Cons by simp
      ultimately show ?thesis using False by auto
    qed
  qed
qed

lemma strip_set: "set (strip l) \<subseteq> set l"
proof
  fix x
  assume "x \<in> set (strip l)"
  then have "x \<in> set (dropWhile is_space (rev (dropWhile is_space l)))"
    by (simp add: strip_def lstrip_def rstrip_def)
  then have "x \<in> set (rev (dropWhile is_space l))" by (rule set_dropWhileD)
  then have "x \<in> set (dropWhile is_space l)" by simp
  then show "x \<in> set l" by (rule set_dropWhileD)
qed

lemma strip_id:
  assumes "y \<noteq> []" "\<not> is_space (hd y)" "\<not> is_space (last y)"
  shows "strip y = y"
proof -
  from assms(1,2) have "dropWhile is_space y = y" by (cases y) auto
  with rstrip_id [OF assms(1,3)] show ?thesis by (simp add: strip_def lstrip_def)
qed

lemma strip_ends:
  assumes "strip l \<noteq> []"
  shows "\<not> is_space (hd (strip l)) \<and> \<not> is_space (last (strip l))"
proof -
  define m where "m = dropWhile is_space l"
  define k where "k = dropWhile is_space (rev m)"
  have s: "strip l = rev k" by (simp add: strip_def lstrip_def rstrip_def m_def k_def)
  with assms have k: "k \<noteq> []" by simp
  then have m: "m \<noteq> []" by (auto simp: k_def)
  have hk: "\<not> is_space (hd k)" using k unfolding k_def by (rule hd_dropWhile)
  have hm: "\<not> is_space (hd m)" using m unfolding m_def by (rule hd_dropWhile)
  have "\<not> is_space (last (rev m))" using hm m by (simp add: last_rev)
  with dropWhile_last [of "rev m" is_space] m have "last k = last (rev m)" by (simp add: k_def)
  then have "last k = hd m" using m by (simp add: last_rev)
  with hk hm k s show ?thesis by (simp add: hd_rev last_rev)
qed

text \<open>Step 6 on its own.\<close>

lemma lines_of_line:
  assumes "l \<in> set (lines_of s)"
  shows "l \<noteq> [] \<and> set l \<subseteq> set s - {10} \<and> \<not> is_space (hd l) \<and> \<not> is_space (last l)"
proof -
  from assms obtain k where k: "k \<in> set (split_on 10 s)" and l: "l = strip k" and ne: "l \<noteq> []"
    by (auto simp: lines_of_def)
  from split_on_set [OF k] strip_set [of k] l have "set l \<subseteq> set s - {10}" by auto
  with strip_ends [of k] l ne show ?thesis by simp
qed

lemma end_line_set: "set (end_line l) \<subseteq> set l \<union> {46}"
  by (auto simp: end_line_def)

lemma end_line_hd: "l \<noteq> [] \<Longrightarrow> hd (end_line l) = hd l"
  by (simp add: end_line_def)

lemma join_set: "set (join sep ls) \<subseteq> set sep \<union> \<Union> (set ` set ls)"
  by (induction sep ls rule: join.induct) auto

lemma join_hd: "ls \<noteq> [] \<Longrightarrow> hd ls \<noteq> [] \<Longrightarrow> hd (join sep ls) = hd (hd ls)"
  by (induction sep ls rule: join.induct) auto

lemma sentences_set: "set (sentences s) \<subseteq> (set s - {10}) \<union> {46, 32}"
proof
  fix x
  assume "x \<in> set (sentences s)"
  with join_set [of "[32]" "map end_line (lines_of s)"]
  have "x = 32 \<or> (\<exists>l\<in>set (lines_of s). x \<in> set (end_line l))"
    by (auto simp: sentences_def)
  then show "x \<in> (set s - {10}) \<union> {46, 32}"
  proof
    assume "x = 32"
    then show ?thesis by simp
  next
    assume "\<exists>l\<in>set (lines_of s). x \<in> set (end_line l)"
    then obtain l where l: "l \<in> set (lines_of s)" and x: "x \<in> set (end_line l)" by blast
    from x end_line_set [of l] have "x \<in> set l \<or> x = 46" by auto
    with lines_of_line [OF l] show ?thesis by auto
  qed
qed

lemma sentences_ends:
  assumes "sentences s \<noteq> []"
  shows "\<not> is_space (hd (sentences s)) \<and> is_terminal (last (sentences s))"
proof -
  from assms have ne: "lines_of s \<noteq> []" by (auto simp: sentences_def)
  then obtain l ls where ls: "lines_of s = l # ls" by (cases "lines_of s") auto
  from lines_of_line [of l s] ls have l: "l \<noteq> []" "\<not> is_space (hd l)" by simp_all
  have e: "end_line l \<noteq> []" using end_line_last by simp
  have "hd (sentences s) = hd (end_line l)"
    using join_hd [of "map end_line (lines_of s)" "[32]"] ls e by (simp add: sentences_def)
  with end_line_hd [OF l(1)] l(2) have "\<not> is_space (hd (sentences s))" by simp
  moreover from joined_lines_last [of s] assms have "is_terminal (last (sentences s))"
    by (simp add: sentences_def)
  ultimately show ?thesis by simp
qed

lemma sentences_Nil: "sentences [] = []"
  by (simp add: sentences_def lines_of_def strip_def lstrip_def rstrip_def)

lemma sentences_id:
  assumes "y \<noteq> []" "10 \<notin> set y" "\<not> is_space (hd y)" "is_terminal (last y)"
  shows "sentences y = y"
proof -
  have "strip y = y" using assms terminal_not_space by (simp add: strip_id)
  with split_on_id [OF assms(2)] assms(1) have "lines_of y = [y]" by (simp add: lines_of_def)
  with assms(1,4) show ?thesis by (simp add: sentences_def end_line_def)
qed

text \<open>The sanitizer in three parts: steps 1 to 5, step 6, steps 7 and 8.\<close>

lemma clean_for_tts_steps:
  "clean_for_tts W x = (if x = [] then [] else strip (tidy (sentences (remove_markup W x))))"
  by (simp add: clean_for_tts_def remove_markup_def Let_def tidy_def sentences_def)

text \<open>The sanitizer on text without markup: the two replacements that can still act, then steps 6 to 8.\<close>

lemma markup_free_set:
  "markup_free s \<longleftrightarrow> 42 \<notin> set s \<and> 95 \<notin> set s \<and> 91 \<notin> set s \<and> 92 \<notin> set s \<and> 35 \<notin> set s"
  by (auto simp: markup_free_def list_all_iff)

lemma remove_markup_free:
  assumes "markup_free x"
  shows "remove_markup W x = replace [96] [] (replace [13, 10] [10] x)"
proof -
  from assms have x: "42 \<notin> set x" "95 \<notin> set x" "91 \<notin> set x" "92 \<notin> set x" "35 \<notin> set x"
    by (simp_all add: markup_free_set)
  define z where "z = replace [13, 10] [10] x"
  define z2 where "z2 = replace [96] [] z"
  have zs: "set z \<subseteq> set x \<union> {10}" using replace_set [of "[13, 10]" "[10]" x] by (simp add: z_def)
  have z2s: "set z2 \<subseteq> set z" using replace_set [of "[96]" "[]" z] by (simp add: z2_def)
  have zn: "42 \<notin> set z" "95 \<notin> set z" "91 \<notin> set z" "35 \<notin> set z"
    using x zs by auto
  have z2n: "42 \<notin> set z2" "95 \<notin> set z2" "35 \<notin> set z2"
    using zn z2s by auto
  have 1: "re_sub m_type_tag None x = x"
  proof (rule re_sub_id)
    fix p t
    assume "set t \<subseteq> set x"
    with x have "91 \<notin> set t" by blast
    then show "m_type_tag p t = None" by (rule m_type_tag_None)
  qed
  have 2: "replace [92, 110] [10] x = x"
    by (rule replace_id [of 92]) (use x in auto)
  have 3: "re_sub m_md_link None z = z"
  proof (rule re_sub_id)
    fix p t
    assume "set t \<subseteq> set z"
    with zn have "91 \<notin> set t" by blast
    then show "m_md_link p t = None" by (rule m_md_link_None)
  qed
  have 4: "replace [42, 42] [] z = z"
    by (rule replace_id [of 42]) (use zn in auto)
  have 5: "replace [95, 95] [] z = z"
    by (rule replace_id [of 95]) (use zn in auto)
  have 6: "re_sub (m_emphasis W) None z2 = z2"
  proof (rule re_sub_id)
    fix p t
    assume "set t \<subseteq> set z2"
    with z2n have "42 \<notin> set t" "95 \<notin> set t" by blast+
    then show "m_emphasis W p t = None" by (rule m_emphasis_None)
  qed
  have 7: "re_sub m_heading None z2 = z2"
  proof (rule re_sub_id)
    fix p t
    assume "set t \<subseteq> set z2"
    with z2n have "35 \<notin> set t" by blast
    then show "m_heading p t = None" by (rule m_heading_None)
  qed
  show ?thesis
    by (simp add: remove_markup_def Let_def 1 2 3 4 5 6 7 z_def [symmetric] z2_def [symmetric])
qed

lemma remove_markup_backtick: "96 \<notin> set (remove_markup W x)"
proof -
  have e: "set (re_sub (m_emphasis W) p s) \<subseteq> set s \<union> {32}" for p s
    by (rule re_sub_set) (auto simp: m_emphasis_def Let_def split: list.splits if_splits)
  have h: "set (re_sub m_heading p s) \<subseteq> set s \<union> {32}" for p s
    by (rule re_sub_set) (auto simp: m_heading_def Let_def split: if_splits)
  define z where "z = replace [95, 95] [] (replace [42, 42] []
     (re_sub m_md_link None (replace [13, 10] [10] (replace [92, 110] [10]
        (re_sub m_type_tag None x)))))"
  have r: "remove_markup W x =
      re_sub m_heading None (re_sub (m_emphasis W) None (replace [96] [] z))"
    by (simp add: remove_markup_def Let_def z_def)
  have "96 \<notin> set (replace [96] [] z)" by (rule replace_backtick)
  with e [of None "replace [96] [] z"]
  have "96 \<notin> set (re_sub (m_emphasis W) None (replace [96] [] z))" by auto
  with h [of None "re_sub (m_emphasis W) None (replace [96] [] z)"] show ?thesis
    unfolding r by auto
qed

lemma split_on_covers:
  "c \<in> set s \<Longrightarrow> c \<noteq> d \<Longrightarrow> \<exists>l\<in>set (split_on d s). c \<in> set l"
proof (induction s)
  case Nil
  then show ?case by simp
next
  case (Cons a s)
  show ?case
  proof (cases "a = d")
    case True
    with Cons show ?thesis by auto
  next
    case False
    obtain k ks where k: "split_on d s = k # ks"
      by (cases "split_on d s") (cases s, auto split: list.splits if_splits)
    show ?thesis
    proof (cases "c = a")
      case True
      with False k show ?thesis by simp
    next
      case c: False
      with Cons have "\<exists>l\<in>set (split_on d s). c \<in> set l" by simp
      with False k show ?thesis by auto
    qed
  qed
qed

lemma strip_Nil_iff: "strip l = [] \<longleftrightarrow> list_all is_space l"
proof
  assume "strip l = []"
  then have a: "\<forall>x\<in>set (dropWhile is_space l). is_space x"
    by (simp add: strip_def lstrip_def rstrip_def)
  have "dropWhile is_space l = []"
  proof (rule ccontr)
    assume ne: "dropWhile is_space l \<noteq> []"
    then have "\<not> is_space (hd (dropWhile is_space l))" by (rule hd_dropWhile)
    moreover from ne have "hd (dropWhile is_space l) \<in> set (dropWhile is_space l)"
      by (rule hd_in_set)
    ultimately show False using a by blast
  qed
  then show "list_all is_space l" by (simp add: list_all_iff)
next
  assume "list_all is_space l"
  then have d: "dropWhile is_space l = []" by (simp add: list_all_iff)
  show "strip l = []" unfolding strip_def lstrip_def rstrip_def d by simp
qed

lemma space_10: "is_space 10"
  by (simp add: is_space_def)

lemma lines_of_Nil_iff: "lines_of s = [] \<longleftrightarrow> list_all is_space s"
proof
  assume l: "lines_of s = []"
  show "list_all is_space s"
    unfolding list_all_iff
  proof
    fix c
    assume c: "c \<in> set s"
    show "is_space c"
    proof (cases "c = 10")
      case True
      then show ?thesis by (simp add: space_10)
    next
      case False
      from split_on_covers [OF c False] obtain k where k: "k \<in> set (split_on 10 s)" "c \<in> set k"
        by blast
      from l k(1) have "strip k = []" by (auto simp: lines_of_def filter_empty_conv)
      then have "list_all is_space k" by (simp add: strip_Nil_iff)
      with k(2) show ?thesis by (simp add: list_all_iff)
    qed
  qed
next
  assume a: "list_all is_space s"
  have "strip k = []" if "k \<in> set (split_on 10 s)" for k
  proof -
    from split_on_set [OF that] a have "list_all is_space k" by (auto simp: list_all_iff)
    then show ?thesis by (simp add: strip_Nil_iff)
  qed
  then show "lines_of s = []" by (auto simp: lines_of_def filter_empty_conv)
qed

lemma sentences_Nil_iff: "sentences s = [] \<longleftrightarrow> list_all is_space s"
proof -
  have "sentences s = [] \<longleftrightarrow> lines_of s = []"
  proof
    assume e: "sentences s = []"
    show "lines_of s = []"
    proof (rule ccontr)
      assume "lines_of s \<noteq> []"
      then have ne: "map end_line (lines_of s) \<noteq> []" by simp
      have all: "\<forall>l\<in>set (map end_line (lines_of s)). l \<noteq> []"
        using end_line_last by auto
      from join_last [OF ne all, of "[32]"] e show False by (simp add: sentences_def)
    qed
  next
    assume "lines_of s = []"
    then show "sentences s = []" by (simp add: sentences_def)
  qed
  then show ?thesis by (simp add: lines_of_Nil_iff)
qed

lemma clean_for_tts_shape:
  "(sentences (remove_markup W x) = [] \<or> x = [] \<longrightarrow> clean_for_tts W x = []) \<and>
   (sentences (remove_markup W x) \<noteq> [] \<and> x \<noteq> [] \<longrightarrow>
      clean_for_tts W x = tidy (sentences (remove_markup W x)) \<and>
      clean_for_tts W x \<noteq> [] \<and>
      \<not> is_space (hd (clean_for_tts W x)) \<and> is_terminal (last (clean_for_tts W x)))"
proof -
  define s6 where "s6 = sentences (remove_markup W x)"
  have 1: "clean_for_tts W x = []" if "s6 = [] \<or> x = []"
    using that by (auto simp: clean_for_tts_steps s6_def [symmetric] tidy_Nil strip_def
        lstrip_def rstrip_def)
  have 2: "clean_for_tts W x = tidy s6 \<and> clean_for_tts W x \<noteq> [] \<and>
      \<not> is_space (hd (clean_for_tts W x)) \<and> is_terminal (last (clean_for_tts W x))"
    if ne: "s6 \<noteq> []" and x: "x \<noteq> []"
  proof -
    obtain a as where s6: "s6 = a # as" using ne by (cases s6) auto
    from sentences_ends [of "remove_markup W x"] ne
    have e: "\<not> is_space (hd s6)" "is_terminal (last s6)" by (simp_all add: s6_def)
    from e(1) s6 have a: "\<not> is_space a" by simp
    from tidy_hd [OF a, of as] s6 obtain r where r: "tidy s6 = a # r" by auto
    from tidy_last [OF ne terminal_not_space [OF e(2)]]
    have l: "last (tidy s6) = last s6" by simp
    have y1: "tidy s6 \<noteq> []" using r by simp
    have y2: "\<not> is_space (hd (tidy s6))" using r a by simp
    have y3: "is_terminal (last (tidy s6))" using l e(2) by simp
    have y: "strip (tidy s6) = tidy s6"
      using strip_id [OF y1 y2 terminal_not_space [OF y3]] .
    have c: "clean_for_tts W x = tidy s6"
      using x y by (simp add: clean_for_tts_steps s6_def)
    from c y1 y2 y3 show ?thesis by simp
  qed
  from 1 2 show ?thesis unfolding s6_def by blast
qed

lemma remove_markup_Nil: "remove_markup W [] = []"
  by (simp add: remove_markup_def m_type_tag_def match_type_tag_def u_def m_md_link_def
      m_emphasis_def m_heading_def)

lemma clean_for_tts_empty_iff:
  "clean_for_tts W x = [] \<longleftrightarrow> list_all is_space (remove_markup W x)"
proof (cases "x = []")
  case True
  then show ?thesis by (simp add: clean_for_tts_def remove_markup_Nil)
next
  case False
  with clean_for_tts_shape [of W x] show ?thesis
    by (auto simp: sentences_Nil_iff)
qed

text \<open>
  C9, as stated: for every non-empty input without a terminal mark the sanitizer returns a
  string ending in one of \<^verbatim>\<open>. ! ? \<dots>\<close>. It fails on a single space: the input is not
  empty and has no terminal mark, no line survives the filter of step 6, and the result is the
  empty string.
\<close>

theorem clean_for_tts_blank_counterexample:
  "[32] \<noteq> ([] :: ustr) \<and> \<not> is_terminal 32 \<and> clean_for_tts ascii_words [32] = []"
  by (simp add: clean_eval)

text \<open>
  C9, amended: for every input, when a character that is not whitespace is left after the
  removal of markup (steps 1 to 5), the sanitizer returns a non-empty string that ends in one of
  \<^verbatim>\<open>. ! ? \<dots>\<close>; when none is left, it returns the empty string.
\<close>

theorem clean_for_tts_ends_terminal:
  "(if list_all is_space (remove_markup W x) then clean_for_tts W x = []
    else clean_for_tts W x \<noteq> [] \<and> is_terminal (last (clean_for_tts W x)))"
proof (cases "list_all is_space (remove_markup W x)")
  case True
  then show ?thesis by (simp add: clean_for_tts_empty_iff)
next
  case False
  then have "clean_for_tts W x \<noteq> []" by (simp add: clean_for_tts_empty_iff)
  with False clean_for_tts_last [of W x] show ?thesis by simp
qed

theorem clean_for_tts_ends_terminal_witness:
  "\<not> list_all is_space (remove_markup ascii_words (u ''**Apa kabar**'')) \<and>
   clean_for_tts ascii_words (u ''**Apa kabar**'') \<noteq> [] \<and>
   is_terminal (last (clean_for_tts ascii_words (u ''**Apa kabar**''))) \<and>
   list_all is_space (remove_markup ascii_words (u ''** ``'')) \<and>
   clean_for_tts ascii_words (u ''** ``'') = []"
proof -
  have 1: "\<not> list_all is_space (remove_markup ascii_words (u ''**Apa kabar**''))"
    by (simp add: clean_eval remove_markup_def)
  have 2: "list_all is_space (remove_markup ascii_words (u ''** ``''))"
    by (simp add: clean_eval remove_markup_def)
  from clean_for_tts_ends_terminal [where x = "u ''**Apa kabar**''" and W = ascii_words]
    clean_for_tts_ends_terminal [where x = "u ''** ``''" and W = ascii_words] 1 2
  show ?thesis by simp
qed

lemma clean_for_tts_set:
  "set (clean_for_tts W x) \<subseteq> (set (remove_markup W x) - {10}) \<union> {46, 32}"
proof (cases "sentences (remove_markup W x) = [] \<or> x = []")
  case True
  with clean_for_tts_shape [of W x] show ?thesis by auto
next
  case False
  with clean_for_tts_shape [of W x]
  have "clean_for_tts W x = tidy (sentences (remove_markup W x))" by blast
  with tidy_set [of "sentences (remove_markup W x)"] sentences_set [of "remove_markup W x"]
  show ?thesis by auto
qed

text \<open>
  C8, as stated: the sanitizer is idempotent, \<^verbatim>\<open>clean_for_tts(clean_for_tts(x))\<close> equals
  \<^verbatim>\<open>clean_for_tts(x)\<close> for every text. It fails on \<^verbatim>\<open># # Title\<close>: the heading pattern is
  anchored at the start of a line, so the first pass removes only the first number sign and its
  space and returns \<^verbatim>\<open># Title.\<close>; in the second pass the remaining number sign is at the start
  and is removed, which gives \<^verbatim>\<open>Title.\<close>.
\<close>

theorem clean_for_tts_twice_counterexample:
  "clean_for_tts ascii_words (u ''# # Title'') = u ''# Title.'' \<and>
   clean_for_tts ascii_words (clean_for_tts ascii_words (u ''# # Title'')) = u ''Title.''"
  by (simp add: clean_eval)

text \<open>
  C8, amended: for every text whose sanitized form the removal of markup (steps 1 to 5) leaves
  unchanged, and so for every text whose sanitized form contains no asterisk, underscore,
  opening bracket, backslash or number sign, sanitizing the sanitized form gives the sanitized
  form again.
\<close>

theorem clean_for_tts_idempotent:
  assumes "remove_markup W (clean_for_tts W x) = clean_for_tts W x \<or>
      markup_free (clean_for_tts W x)"
  shows "clean_for_tts W (clean_for_tts W x) = clean_for_tts W x"
proof (cases "sentences (remove_markup W x) = [] \<or> x = []")
  case True
  with clean_for_tts_shape [of W x] have "clean_for_tts W x = []" by blast
  then show ?thesis by (simp add: clean_for_tts_def)
next
  case False
  define s6 where "s6 = sentences (remove_markup W x)"
  define y where "y = clean_for_tts W x"
  from False clean_for_tts_shape [of W x]
  have "clean_for_tts W x = tidy (sentences (remove_markup W x)) \<and>
      clean_for_tts W x \<noteq> [] \<and>
      \<not> is_space (hd (clean_for_tts W x)) \<and> is_terminal (last (clean_for_tts W x))"
    by blast
  then have y: "y = tidy s6" "y \<noteq> []" "\<not> is_space (hd y)" "is_terminal (last y)"
    unfolding y_def s6_def by blast+
  from clean_for_tts_set [of W x] remove_markup_backtick [of W x]
  have n: "10 \<notin> set y" "96 \<notin> set y" by (auto simp: y_def)
  have r: "remove_markup W y = y"
  proof (cases "remove_markup W y = y")
    case True
    then show ?thesis .
  next
    case False
    with assms have mf: "markup_free y" by (simp add: y_def)
    have r1: "replace [13, 10] [10] y = y"
      by (rule replace_id [of 10]) (use n in auto)
    have r2: "replace [96] [] y = y"
      by (rule replace_id [of 96]) (use n in auto)
    from remove_markup_free [OF mf, of W] show ?thesis by (simp add: r1 r2)
  qed
  have "clean_for_tts W y = strip (tidy (sentences y))"
    using y(2) r by (simp add: clean_for_tts_steps)
  also have "\<dots> = strip (tidy y)"
    using sentences_id [OF y(2) n(1) y(3) y(4)] by simp
  also have "\<dots> = strip y"
    by (simp add: y(1) tidy_idem)
  also have "\<dots> = y"
    using strip_id [OF y(2) y(3) terminal_not_space [OF y(4)]] .
  finally show ?thesis by (simp add: y_def)
qed

theorem clean_for_tts_idempotent_witness:
  "markup_free (clean_for_tts ascii_words (u ''Hai! **Apa kabar**'')) \<and>
   clean_for_tts ascii_words (clean_for_tts ascii_words (u ''Hai! **Apa kabar**'')) =
     clean_for_tts ascii_words (u ''Hai! **Apa kabar**'') \<and>
   remove_markup ascii_words (clean_for_tts ascii_words (u ''2*3'')) =
     clean_for_tts ascii_words (u ''2*3'') \<and>
   clean_for_tts ascii_words (clean_for_tts ascii_words (u ''2*3'')) =
     clean_for_tts ascii_words (u ''2*3'')"
proof -
  have 1: "markup_free (clean_for_tts ascii_words (u ''Hai! **Apa kabar**''))"
    by (simp add: clean_eval markup_free_def)
  have 2: "remove_markup ascii_words (clean_for_tts ascii_words (u ''2*3'')) =
     clean_for_tts ascii_words (u ''2*3'')"
    by (simp add: clean_eval remove_markup_def)
  from clean_for_tts_idempotent [where x = "u ''Hai! **Apa kabar**''" and W = ascii_words]
    clean_for_tts_idempotent [where x = "u ''2*3''" and W = ascii_words] 1 2
  show ?thesis by blast
qed

end
